theory Spec2Isabelle
  imports Main "HOL-Library.Word" "HOL-Library.Sublist" "HOL-Library.Multiset" "HOL-Library.AList"
begin

section \<open>JavaScript strings\<close>

text \<open>
  A JavaScript string is a sequence of UTF-16 code units. String literals of the source
  are ASCII and are written \<open>ascii ''...''\<close>. A string is falsy exactly when it is
  empty; an optional field (\<open>value?: string\<close>) is an \<open>option\<close>, and it is truthy
  when it is present and not empty.
\<close>

type_synonym code_unit = "16 word"
type_synonym ustring = "code_unit list"

definition ascii :: "string \<Rightarrow> ustring" where
  "ascii s = map of_char s"

definition truthy :: "ustring option \<Rightarrow> bool" where
  "truthy x = (case x of None \<Rightarrow> False | Some s \<Rightarrow> s \<noteq> [])"

text \<open>\<open>x || ''\<close> for an optional string.\<close>

definition orEmpty :: "ustring option \<Rightarrow> ustring" where
  "orEmpty x = (case x of None \<Rightarrow> [] | Some s \<Rightarrow> s)"

text \<open>\<open>x || undefined\<close> for the result of \<open>getAttribute\<close>.\<close>

definition orUndefined :: "ustring option \<Rightarrow> ustring option" where
  "orUndefined x = (if truthy x then x else None)"

text \<open>
  \<open>String.prototype.trim\<close> removes the code units that ECMAScript calls WhiteSpace or
  LineTerminator from both ends.
\<close>

definition isWhiteSpace :: "code_unit \<Rightarrow> bool" where
  "isWhiteSpace c \<longleftrightarrow>
     c \<in> {0x9, 0xA, 0xB, 0xC, 0xD, 0x20, 0xA0, 0x1680, 0x2028, 0x2029, 0x202F, 0x205F,
           0x3000, 0xFEFF}
     \<or> (0x2000 \<le> c \<and> c \<le> 0x200A)"

definition trim :: "ustring \<Rightarrow> ustring" where
  "trim s = rev (dropWhile isWhiteSpace (rev (dropWhile isWhiteSpace s)))"

definition startsWith :: "ustring \<Rightarrow> ustring \<Rightarrow> bool" where
  "startsWith s p = prefix p s"

text \<open>\<open>s.includes(p)\<close>: \<open>p\<close> occurs in \<open>s\<close> as a contiguous run of code units.\<close>

fun includes_str :: "ustring \<Rightarrow> ustring \<Rightarrow> bool" where
  "includes_str [] p = (p = [])"
| "includes_str (c # cs) p = (prefix p (c # cs) \<or> includes_str cs p)"

text \<open>
  \<open>s.replace(/pat/g, rep)\<close> for a literal pattern: every occurrence, found from left to
  right without overlap, is replaced.
\<close>

function replaceAll :: "ustring \<Rightarrow> ustring \<Rightarrow> ustring \<Rightarrow> ustring" where
  "replaceAll pat rep [] = []"
| "replaceAll pat rep (c # cs) =
     (if pat \<noteq> [] \<and> prefix pat (c # cs)
      then rep @ replaceAll pat rep (drop (length pat) (c # cs))
      else c # replaceAll pat rep cs)"
  by pat_completeness auto
termination
  by (relation "measure (\<lambda>(pat, rep, s). length s)") (auto simp: neq_Nil_conv)

section \<open>The runtime\<close>

text \<open>
  The functions of the browser and of the pako library that the parser calls are not part
  of the repository; they are the fields of a record that every definition takes as
  its first argument. A call that can throw returns \<open>None\<close> when it throws.
  \<^item> \<open>toLowerCase\<close>, \<open>toUpperCase\<close>: the methods of \<open>String.prototype\<close>;
  \<^item> \<open>atob\<close>: base64 to a binary string, throws on malformed input;
  \<^item> \<open>inflateRaw\<close>: \<open>pako.inflateRaw(bytes, { to: 'string' })\<close>, throws on a corrupt stream;
  \<^item> \<open>decodeURIComponent\<close>: throws on a malformed escape sequence;
  \<^item> \<open>parseFromString\<close>: \<open>DOMParser.parseFromString(text, 'text/xml')\<close>; it never throws
    and reports a syntax error as a \<open>parsererror\<close> element in the document it returns;
  \<^item> \<open>inheritedProperty\<close>: the names of the properties that an object literal inherits
    from \<open>Object.prototype\<close> (\<open>constructor\<close>, \<open>toString\<close>, \<open>__proto__\<close> and so on). Their
    values are functions (for \<open>__proto__\<close>, the prototype object).
\<close>

datatype xml = Element ustring "(ustring \<times> ustring) list" "xml list" | Text ustring

datatype document = Document (documentElement: "xml option")

record runtime =
  toLowerCase :: "ustring \<Rightarrow> ustring"
  toUpperCase :: "ustring \<Rightarrow> ustring"
  atob :: "ustring \<Rightarrow> ustring option"
  inflateRaw :: "8 word list \<Rightarrow> ustring option"
  decodeURIComponent :: "ustring \<Rightarrow> ustring option"
  parseFromString :: "ustring \<Rightarrow> document"
  inheritedProperty :: "ustring \<Rightarrow> bool"

section \<open>Content decoder\<close>

definition decodeHtml :: "ustring \<Rightarrow> ustring" where
  "decodeHtml raw =
     replaceAll (ascii ''&amp;'') (ascii ''&'')
      (replaceAll (ascii ''&nbsp;'') (ascii '' '')
       (replaceAll (ascii ''&#39;'') (ascii [CHR 0x27])
        (replaceAll (ascii ''&quot;'') (ascii [CHR 0x22])
         (replaceAll (ascii ''&gt;'') (ascii ''>'')
          (replaceAll (ascii ''&lt;'') (ascii ''<'') raw)))))"

definition b64ToUint8 :: "runtime \<Rightarrow> ustring \<Rightarrow> 8 word list option" where
  "b64ToUint8 rt b64 = map_option (map ucast) (atob rt b64)"

text \<open>
  The body of the two \<open>try\<close> blocks of \<open>decodeDiagramContent\<close>: base64, then raw inflate,
  then URI decoding, accepted when the result looks like XML. \<open>None\<close> stands for both ways
  of leaving the block without returning: an exception that the \<open>catch\<close> swallows, and a
  result that does not start with \<open><\<close>.
\<close>

definition inflateBlock :: "runtime \<Rightarrow> ustring \<Rightarrow> ustring option" where
  "inflateBlock rt b64 =
     (case b64ToUint8 rt b64 of
        None \<Rightarrow> None
      | Some bytes \<Rightarrow>
          (case inflateRaw rt bytes of
             None \<Rightarrow> None
           | Some inflated \<Rightarrow>
               (case decodeURIComponent rt inflated of
                  None \<Rightarrow> None
                | Some xml \<Rightarrow> if startsWith (trim xml) (ascii ''<'') then Some xml else None)))"

definition decodeDiagramContent :: "runtime \<Rightarrow> ustring \<Rightarrow> ustring" where
  "decodeDiagramContent rt data =
     (if data = [] then []
      else if startsWith (trim data) (ascii ''<'') then data
      else case inflateBlock rt data of
        Some xml \<Rightarrow> xml
      | None \<Rightarrow>
          (case (case decodeURIComponent rt data of
                   None \<Rightarrow> None
                 | Some uriDecoded \<Rightarrow> inflateBlock rt uriDecoded) of
             Some xml \<Rightarrow> xml
           | None \<Rightarrow>
               (let htmlDecoded = decodeHtml data
                in if startsWith (trim htmlDecoded) (ascii ''<'') then htmlDecoded else [])))"

text \<open>
  A runtime for evaluating examples. Its case mappings change the ASCII letters only. Its
  URI decoder returns a text without percent sign as it is and throws on any other; its
  base64 decoder and its inflater throw, and its parser returns a document without root
  element. The only text that the examples below hand to the base64 decoder is \<open>!!!\<close>,
  which no base64 decoder accepts, and none of them reaches the inflater or the parser.
  The inherited properties are those of \<open>Object.prototype\<close> in ECMAScript.
\<close>

definition objectPrototypeNames :: "string list" where
  "objectPrototypeNames = [''constructor'', ''hasOwnProperty'', ''isPrototypeOf'',
     ''propertyIsEnumerable'', ''toLocaleString'', ''toString'', ''valueOf'', ''__proto__'',
     ''__defineGetter__'', ''__defineSetter__'', ''__lookupGetter__'', ''__lookupSetter__'']"

definition asciiLower :: "code_unit \<Rightarrow> code_unit" where
  "asciiLower c = (if 0x41 \<le> c \<and> c \<le> 0x5A then c + 0x20 else c)"

definition asciiUpper :: "code_unit \<Rightarrow> code_unit" where
  "asciiUpper c = (if 0x61 \<le> c \<and> c \<le> 0x7A then c - 0x20 else c)"

definition asciiRuntime :: runtime where
  "asciiRuntime = \<lparr> toLowerCase = map asciiLower, toUpperCase = map asciiUpper,
     atob = (\<lambda>_. None), inflateRaw = (\<lambda>_. None),
     decodeURIComponent = (\<lambda>s. if 0x25 \<in> set s then None else Some s),
     parseFromString = (\<lambda>_. Document None),
     inheritedProperty = (\<lambda>key. key \<in> set (map ascii objectPrototypeNames)) \<rparr>"

section \<open>Node classifier\<close>

definition detectShapeType :: "runtime \<Rightarrow> ustring \<Rightarrow> ustring" where
  "detectShapeType rt style =
     (let lowerStyle = toLowerCase rt style in
      if includes_str lowerStyle (ascii ''ellipse'') \<or> includes_str lowerStyle (ascii ''oval'')
      then ascii ''oval''
      else if includes_str lowerStyle (ascii ''rhombus'')
              \<or> includes_str lowerStyle (ascii ''diamond'')
      then ascii ''diamond''
      else if includes_str lowerStyle (ascii ''parallelogram'')
      then ascii ''parallelogram''
      else if includes_str lowerStyle (ascii ''rounded=0'')
              \<or> includes_str lowerStyle (ascii ''whiteSpace=wrap'')
              \<or> includes_str lowerStyle (ascii ''rectangle'')
              \<or> \<not> includes_str lowerStyle (ascii ''ellipse'')
                \<and> \<not> includes_str lowerStyle (ascii ''rhombus'')
                \<and> \<not> includes_str lowerStyle (ascii ''parallelogram'')
      then ascii ''rectangle''
      else ascii ''rectangle'')"

text \<open>\<open>keywords.some(keyword => lowerValue.includes(keyword))\<close>\<close>

definition someKeyword :: "ustring \<Rightarrow> string list \<Rightarrow> bool" where
  "someKeyword lowerValue keywords = list_ex (\<lambda>keyword. includes_str lowerValue (ascii keyword)) keywords"

definition analyzeNodeContent :: "runtime \<Rightarrow> ustring \<Rightarrow> ustring" where
  "analyzeNodeContent rt v =
     (if v = [] then ascii ''unknown''
      else let lowerValue = trim (toLowerCase rt v) in
        if someKeyword lowerValue
             [''start'', ''begin'', ''initialize'', ''init'', ''launch'', ''commence'', ''open'']
        then ascii ''start''
        else if someKeyword lowerValue
             [''end'', ''stop'', ''finish'', ''terminate'', ''exit'', ''close'', ''complete'',
              ''done'']
        then ascii ''end''
        else if someKeyword lowerValue
             [''input'', ''read'', ''enter'', ''get'', ''scan'', ''prompt'', ''ask'']
        then ascii ''input''
        else if someKeyword lowerValue
             [''output'', ''print'', ''display'', ''show'', ''write'', ''say'', ''tell'']
        then ascii ''output''
        else if someKeyword lowerValue
             [''if'', ''while'', ''for'', ''check'', ''test'', ''compare'', ''?'', ''=='', ''!='',
              ''<'', ''>'', ''<='', ''>='']
        then ascii ''decision''
        else if someKeyword lowerValue
             [''='', ''calculate'', ''compute'', ''set'', ''assign'', ''update'', ''increment'',
              ''decrement'', ''+'', ''-'', ''*'', ''/'']
        then ascii ''process''
        else ascii ''process'')"

definition determineNodeType :: "ustring \<Rightarrow> ustring \<Rightarrow> bool \<Rightarrow> bool \<Rightarrow> ustring" where
  "determineNodeType shapeType contentType hasIncoming hasOutgoing =
     (if shapeType = ascii ''oval'' then
        (if \<not> hasIncoming \<and> hasOutgoing then ascii ''start''
         else if hasIncoming \<and> \<not> hasOutgoing then ascii ''end''
         else if contentType = ascii ''start'' \<or> contentType = ascii ''end'' then contentType
         else if hasIncoming then ascii ''end'' else ascii ''start'')
      else if shapeType = ascii ''diamond'' then ascii ''decision''
      else if shapeType = ascii ''parallelogram'' then
        (if contentType = ascii ''input'' \<or> contentType = ascii ''output'' then contentType
         else ascii ''input'')
      else if shapeType = ascii ''rectangle'' then
        (if contentType = ascii ''start'' \<and> \<not> hasIncoming then ascii ''start''
         else if contentType = ascii ''end'' \<and> \<not> hasOutgoing then ascii ''end''
         else if contentType = ascii ''decision'' then ascii ''decision''
         else if contentType = ascii ''input'' \<or> contentType = ascii ''output'' then contentType
         else ascii ''process'')
      else ascii ''process'')"

text \<open>
  The three calls by which \<open>extractFlowchartElements\<close> types a node: shape from the style
  (\<open>node.style || ''\<close>), content type from the value (\<open>node.value || ''\<close>), and the final
  type from both and the two topology flags.
\<close>

definition classify :: "runtime \<Rightarrow> ustring option \<Rightarrow> ustring option \<Rightarrow> bool \<Rightarrow> bool \<Rightarrow> ustring" where
  "classify rt style v hasIncoming hasOutgoing =
     (let shapeType = detectShapeType rt (orEmpty style);
          contentType = analyzeNodeContent rt (orEmpty v)
      in determineNodeType shapeType contentType hasIncoming hasOutgoing)"

section \<open>Documents\<close>

text \<open>
  The part of the DOM that the extractor reads: element and text nodes in document order.
\<close>

fun tagName :: "xml \<Rightarrow> ustring" where
  "tagName (Element t as cs) = t"
| "tagName (Text s) = []"

fun childNodes :: "xml \<Rightarrow> xml list" where
  "childNodes (Element t as cs) = cs"
| "childNodes (Text s) = []"

fun getAttribute :: "xml \<Rightarrow> ustring \<Rightarrow> ustring option" where
  "getAttribute (Element t as cs) name = map_of as name"
| "getAttribute (Text s) name = None"

text \<open>The element itself and the elements below it, in document order.\<close>

fun elements :: "xml \<Rightarrow> xml list" where
  "elements (Element t as cs) = Element t as cs # concat (map elements cs)"
| "elements (Text s) = []"

fun textContent :: "xml \<Rightarrow> ustring" where
  "textContent (Element t as cs) = concat (map textContent cs)"
| "textContent (Text s) = s"

text \<open>The text nodes that the XPath expression \<open>//text()\<close> selects, in document order.\<close>

fun textNodes :: "xml \<Rightarrow> ustring list" where
  "textNodes (Element t as cs) = concat (map textNodes cs)"
| "textNodes (Text s) = [s]"

text \<open>\<open>document.getElementsByTagName\<close> and \<open>element.getElementsByTagName\<close>.\<close>

definition getElementsByTagName :: "document \<Rightarrow> ustring \<Rightarrow> xml list" where
  "getElementsByTagName doc name =
     (case documentElement doc of
        None \<Rightarrow> []
      | Some root \<Rightarrow> filter (\<lambda>e. tagName e = name) (elements root))"

definition getElementsByTagNameOf :: "xml \<Rightarrow> ustring \<Rightarrow> xml list" where
  "getElementsByTagNameOf el name =
     filter (\<lambda>e. tagName e = name) (concat (map elements (childNodes el)))"

definition allTextNodes :: "document \<Rightarrow> ustring list" where
  "allTextNodes doc = (case documentElement doc of None \<Rightarrow> [] | Some root \<Rightarrow> textNodes root)"

section \<open>Element extractor\<close>

text \<open>
  Nodes and edges as the interfaces \<open>FlowchartNode\<close> and \<open>FlowchartEdge\<close> declare them.
  The fill colour and the geometry of a node are left out: they are computed from the
  cell alone, by code that cannot throw, and no branch of the extractor or of the analyzer
  reads them.
\<close>

record flowchartNode =
  node_id :: ustring
  node_value :: "ustring option"
  node_style :: "ustring option"
  node_type :: "ustring option"
  node_vertex :: "bool option"
  node_parentId :: "ustring option"

record flowchartEdge =
  edge_id :: ustring
  edge_value :: "ustring option"
  edge_style :: "ustring option"
  edge_edge :: "bool option"
  edge_parentId :: "ustring option"
  sourceId :: "ustring option"
  targetId :: "ustring option"

record extraction =
  nodes :: "flowchartNode list"
  edges :: "flowchartEdge list"

text \<open>An entry of \<open>nodeMap\<close>: the node with the sets of its incoming and outgoing neighbours.\<close>

record nodeData =
  node :: flowchartNode
  incoming :: "ustring set"
  outgoing :: "ustring set"

text \<open>
  \<open>nodeMap\<close> is a JavaScript \<open>Map\<close>, which iterates in insertion order: an association list,
  where \<open>set\<close> on a key that is present replaces the entry in place (\<open>AList.update\<close>).
\<close>

type_synonym nodeMap = "(ustring \<times> nodeData) list"

text \<open>The value of a cell; MathML markup is replaced by the text of its \<open>mn\<close> elements.\<close>

definition cellValue :: "runtime \<Rightarrow> xml \<Rightarrow> ustring option" where
  "cellValue rt cell =
     (let v = orUndefined (getAttribute cell (ascii ''value'')) in
      if truthy v \<and> includes_str (the v) (ascii ''<math'') then
        (let valueDoc = parseFromString rt (the v);
             mathNodes = getElementsByTagName valueDoc (ascii ''mn'')
         in if length mathNodes > 0 then Some (concat (map textContent mathNodes)) else v)
      else v)"

text \<open>One iteration of the first pass over the cells.\<close>

definition processCell :: "runtime \<Rightarrow> nodeMap \<times> flowchartEdge list \<Rightarrow> xml
    \<Rightarrow> nodeMap \<times> flowchartEdge list" where
  "processCell rt st cell =
     (let (nodeMap, es) = st; cid = getAttribute cell (ascii ''id'') in
      if \<not> truthy cid then st
      else
        let v = cellValue rt cell;
            style = orUndefined (getAttribute cell (ascii ''style''));
            parentId = orUndefined (getAttribute cell (ascii ''parent''))
        in
        if getAttribute cell (ascii ''vertex'') = Some (ascii ''1'') then
          (AList.update (the cid)
             \<lparr> node = \<lparr> node_id = the cid, node_value = v, node_style = style,
                        node_type = None, node_vertex = Some True, node_parentId = parentId \<rparr>,
               incoming = {}, outgoing = {} \<rparr> nodeMap, es)
        else if getAttribute cell (ascii ''edge'') = Some (ascii ''1'') then
          (let src = orUndefined (getAttribute cell (ascii ''source''));
               tgt = orUndefined (getAttribute cell (ascii ''target''));
               edge = \<lparr> edge_id = the cid, edge_value = v, edge_style = style,
                        edge_edge = Some True, edge_parentId = parentId,
                        sourceId = src, targetId = tgt \<rparr>;
               nodeMap1 =
                 (if truthy src \<and> truthy tgt then
                    (case map_of nodeMap (the src) of
                       None \<Rightarrow> nodeMap
                     | Some sourceData \<Rightarrow>
                         AList.update (the src)
                           (sourceData\<lparr>outgoing := insert (the tgt) (outgoing sourceData)\<rparr>)
                           nodeMap)
                  else nodeMap);
               nodeMap2 =
                 (if truthy src \<and> truthy tgt then
                    (case map_of nodeMap1 (the tgt) of
                       None \<Rightarrow> nodeMap1
                     | Some targetData \<Rightarrow>
                         AList.update (the tgt)
                           (targetData\<lparr>incoming := insert (the src) (incoming targetData)\<rparr>)
                           nodeMap1)
                  else nodeMap1)
           in (nodeMap2, es @ [edge]))
        else st)"

text \<open>
  The statistics object of the second pass. The finished code only writes it (the line
  that printed it is commented out).
\<close>

type_synonym typeStats = "(ustring \<times> nat) list"

definition typeStats0 :: typeStats where
  "typeStats0 = [(ascii ''start'', 0), (ascii ''end'', 0), (ascii ''process'', 0),
     (ascii ''decision'', 0), (ascii ''input'', 0), (ascii ''output'', 0), (ascii ''unknown'', 0)]"

definition countType :: "typeStats \<Rightarrow> ustring \<Rightarrow> typeStats" where
  "countType stats finalType =
     (case map_of stats finalType of
        Some c \<Rightarrow> AList.update finalType (c + 1) stats
      | None \<Rightarrow> AList.update (ascii ''unknown'') (the (map_of stats (ascii ''unknown'')) + 1) stats)"

text \<open>The three tests of the second pass that skip an entry of \<open>nodeMap\<close>.\<close>

definition skipsContainer :: "flowchartNode \<Rightarrow> bool" where
  "skipsContainer n \<longleftrightarrow>
     node_parentId n = Some (ascii ''0'')
     \<or> node_parentId n = Some (ascii ''1'') \<and> node_vertex n \<noteq> Some True"

definition skipsTextLabel :: "flowchartNode \<Rightarrow> bool" where
  "skipsTextLabel n \<longleftrightarrow>
     truthy (node_style n) \<and> includes_str (the (node_style n)) (ascii ''text;html=1'')"

definition skipsEmpty :: "flowchartNode \<Rightarrow> bool" where
  "skipsEmpty n \<longleftrightarrow>
     (\<not> truthy (node_value n) \<or> trim (the (node_value n)) = [])
     \<and> (truthy (node_style n) \<and> \<not> includes_str (the (node_style n)) (ascii ''group''))"

text \<open>The second pass: the loop over \<open>nodeMap\<close>, with the array \<open>nodes\<close> and the statistics.\<close>

fun secondPass :: "runtime \<Rightarrow> nodeMap \<Rightarrow> flowchartNode list \<times> typeStats
    \<Rightarrow> flowchartNode list \<times> typeStats" where
  "secondPass rt [] st = st"
| "secondPass rt ((nodeId, nodeData) # rest) (ns, stats) =
     (let n = node nodeData in
      if skipsContainer n then secondPass rt rest (ns, stats)
      else if skipsTextLabel n then secondPass rt rest (ns, stats)
      else if skipsEmpty n then secondPass rt rest (ns, stats)
      else
        let shapeType = detectShapeType rt (orEmpty (node_style n));
            contentType = analyzeNodeContent rt (orEmpty (node_value n));
            finalType = determineNodeType shapeType contentType
                          (incoming nodeData \<noteq> {}) (outgoing nodeData \<noteq> {})
        in secondPass rt rest (ns @ [n\<lparr>node_type := Some finalType\<rparr>], countType stats finalType))"

text \<open>
  The fallback of the extractor when the document has no cell: every text node whose
  trimmed text is longer than 50 code units is decoded and parsed, until one of them gives
  a document with a cell. The working document is replaced by every text that decodes.
\<close>

fun fallbackDecode :: "runtime \<Rightarrow> ustring list \<Rightarrow> document \<Rightarrow> document" where
  "fallbackDecode rt [] workingDoc = workingDoc"
| "fallbackDecode rt (t # ts) workingDoc =
     (if t \<noteq> [] \<and> length (trim t) > 50 then
        (let decodedXml = decodeDiagramContent rt (trim t) in
         if decodedXml \<noteq> [] then
           (let workingDoc' = parseFromString rt decodedXml in
            if length (getElementsByTagName workingDoc' (ascii ''mxCell'')) > 0 then workingDoc'
            else fallbackDecode rt ts workingDoc')
         else fallbackDecode rt ts workingDoc)
      else fallbackDecode rt ts workingDoc)"

text \<open>
  The first step of the extractor: an \<open>mxfile\<close> document is replaced by the decoded content
  of its first \<open>diagram\<close> element. \<open>None\<close> is the \<open>return null\<close> of the two error branches.
\<close>

definition unwrapMxfile :: "runtime \<Rightarrow> document \<Rightarrow> xml \<Rightarrow> document option" where
  "unwrapMxfile rt xmlDoc root =
     (if tagName root = ascii ''mxfile'' then
        (case getElementsByTagName xmlDoc (ascii ''diagram'') of
           [] \<Rightarrow> Some xmlDoc
         | diagramNode # _ \<Rightarrow>
             (let diagramContent = textContent diagramNode in
              if diagramContent \<noteq> [] then
                (let decodedXml = decodeDiagramContent rt diagramContent in
                 if decodedXml \<noteq> [] then
                   (let workingDoc = parseFromString rt decodedXml in
                    if length (getElementsByTagName workingDoc (ascii ''parsererror'')) > 0
                    then None else Some workingDoc)
                 else None)
              else Some xmlDoc))
      else Some xmlDoc)"

text \<open>
  The extractor. None of the calls inside its \<open>try\<close> block throws (the DOM methods and the
  parser report failure in their results, and the decoder catches its own exceptions), so
  the \<open>catch\<close> branch has no counterpart here.
\<close>

definition extractFlowchartElements :: "runtime \<Rightarrow> document option \<Rightarrow> extraction option" where
  "extractFlowchartElements rt xmlDoc =
     (case xmlDoc of
        None \<Rightarrow> None
      | Some doc \<Rightarrow>
          (case documentElement doc of
             None \<Rightarrow> None
           | Some root \<Rightarrow>
               (case unwrapMxfile rt doc root of
                  None \<Rightarrow> None
                | Some workingDoc \<Rightarrow>
                    (let cells = getElementsByTagName workingDoc (ascii ''mxCell'');
                         workingDoc' = (if length cells = 0
                                        then fallbackDecode rt (allTextNodes workingDoc) workingDoc
                                        else workingDoc);
                         finalCells = getElementsByTagName workingDoc' (ascii ''mxCell'');
                         (nodeMap, es) = foldl (processCell rt) ([], []) finalCells;
                         (ns, stats) = secondPass rt nodeMap ([], typeStats0)
                     in Some \<lparr> nodes = ns, edges = es \<rparr>))))"

section \<open>Graph analyzer\<close>

record analysis =
  totalElements :: nat
  startNodes :: "flowchartNode list"
  endNodes :: "flowchartNode list"
  decisionNodes :: "flowchartNode list"
  processNodes :: "flowchartNode list"
  ioNodes :: "flowchartNode list"
  connections :: "flowchartEdge list"
  issues :: "ustring list"

datatype js_error = TypeError

text \<open>
  \<open>graph\<close> and \<open>outgoingConnections\<close> are object literals used as dictionaries
  (\<open>Record<string, string[]>\<close> and \<open>Record<string, number>\<close>): association lists from the
  names of the properties that were assigned to their values. Reading \<open>obj[key]\<close> finds the
  property that was assigned, or else the property of that name that the object inherits
  from \<open>Object.prototype\<close>, or else \<open>undefined\<close>.
\<close>

datatype 'a property = Own 'a | Inherited | Undefined

definition getProperty :: "runtime \<Rightarrow> (ustring \<times> 'a) list \<Rightarrow> ustring \<Rightarrow> 'a property" where
  "getProperty rt obj key =
     (case map_of obj key of
        Some v \<Rightarrow> Own v
      | None \<Rightarrow> if inheritedProperty rt key then Inherited else Undefined)"

type_synonym graph = "(ustring \<times> ustring list) list"

text \<open>
  One iteration of the \<open>forEach\<close> of \<open>buildGraph\<close>. Under a name that the graph inherits,
  \<open>!graph[edge.sourceId]\<close> is false and \<open>graph[edge.sourceId].push\<close> is not a function:
  the call throws a \<open>TypeError\<close>.
\<close>

definition addArc :: "runtime \<Rightarrow> graph \<Rightarrow> flowchartEdge \<Rightarrow> js_error + graph" where
  "addArc rt graph edge =
     (if truthy (sourceId edge) \<and> truthy (targetId edge) then
        (let graph' = (case getProperty rt graph (the (sourceId edge)) of
                         Undefined \<Rightarrow> AList.update (the (sourceId edge)) [] graph
                       | _ \<Rightarrow> graph)
         in case getProperty rt graph' (the (sourceId edge)) of
              Own targets \<Rightarrow>
                Inr (AList.update (the (sourceId edge)) (targets @ [the (targetId edge)]) graph')
            | _ \<Rightarrow> Inl TypeError)
      else Inr graph)"

fun buildGraphFor :: "runtime \<Rightarrow> graph \<Rightarrow> flowchartEdge list \<Rightarrow> js_error + graph" where
  "buildGraphFor rt graph [] = Inr graph"
| "buildGraphFor rt graph (edge # es) =
     (case addArc rt graph edge of
        Inl e \<Rightarrow> Inl e
      | Inr graph' \<Rightarrow> buildGraphFor rt graph' es)"

definition buildGraph :: "runtime \<Rightarrow> flowchartEdge list \<Rightarrow> js_error + graph" where
  "buildGraph rt es = buildGraphFor rt [] es"

text \<open>
  \<open>graph[nodeId] || []\<close> as the operand of \<open>for ... of\<close>: the array that was assigned, the
  empty array for \<open>undefined\<close>, and \<open>None\<close> for an inherited property, which is truthy and
  not iterable, so that the loop throws a \<open>TypeError\<close>.
\<close>

definition neighbors :: "runtime \<Rightarrow> graph \<Rightarrow> ustring \<Rightarrow> ustring list option" where
  "neighbors rt g nodeId =
     (case getProperty rt g nodeId of
        Own ns \<Rightarrow> Some ns
      | Undefined \<Rightarrow> Some []
      | Inherited \<Rightarrow> None)"

text \<open>
  The depth-first search of \<open>detectCycles\<close>. The closure \<open>hasCycle\<close> mutates the two sets
  \<open>visited\<close> and \<open>recursionStack\<close>; here it takes them and returns them with its result.
  \<open>hasCycleFor\<close> is its loop over the neighbours, which returns at the first neighbour
  that reports a cycle, leaving the recursion stack as it is.
\<close>

type_synonym dfs_state = "ustring set \<times> ustring set"

function hasCycle :: "runtime \<Rightarrow> graph \<Rightarrow> ustring \<Rightarrow> dfs_state \<Rightarrow> js_error + bool \<times> dfs_state"
  and hasCycleFor :: "runtime \<Rightarrow> graph \<Rightarrow> ustring list \<Rightarrow> dfs_state
    \<Rightarrow> js_error + bool \<times> dfs_state" where
  "hasCycle rt g nodeId (visited, recursionStack) =
     (if nodeId \<in> recursionStack then Inr (True, (visited, recursionStack))
      else if nodeId \<in> visited then Inr (False, (visited, recursionStack))
      else (case neighbors rt g nodeId of
              None \<Rightarrow> Inl TypeError
            | Some ns \<Rightarrow>
                (case hasCycleFor rt g ns (insert nodeId visited, insert nodeId recursionStack) of
                   Inl e \<Rightarrow> Inl e
                 | Inr (True, st) \<Rightarrow> Inr (True, st)
                 | Inr (False, (visited', recursionStack')) \<Rightarrow>
                     Inr (False, (visited', recursionStack' - {nodeId})))))"
| "hasCycleFor rt g [] st = Inr (False, st)"
| "hasCycleFor rt g (neighbor # rest) st =
     (case hasCycle rt g neighbor st of
        Inl e \<Rightarrow> Inl e
      | Inr (True, st') \<Rightarrow> Inr (True, st')
      | Inr (False, st') \<Rightarrow> hasCycleFor rt g rest st')"
  by pat_completeness auto

text \<open>
  The search terminates because a call that goes on to the neighbours marks a node that was
  not visited, and only the finitely many keys of the graph have neighbours. The nested
  call needs to know first that the visited set never shrinks.
\<close>

termination
proof -
  have mono:
    "hasCycle_hasCycleFor_dom (Inl (rt, g, v, st)) \<Longrightarrow> hasCycle rt g v st = Inr (b, st')
       \<Longrightarrow> fst st \<subseteq> fst st'"
    "hasCycle_hasCycleFor_dom (Inr (rt, g, ns, st)) \<Longrightarrow> hasCycleFor rt g ns st = Inr (b, st')
       \<Longrightarrow> fst st \<subseteq> fst st'"
    for rt g v st ns b st'
  proof (induction rt g v st and rt g ns st arbitrary: b st' and b st'
      rule: hasCycle_hasCycleFor.pinduct)
    case (1 rt g nodeId visited recursionStack)
    show ?case
    proof (cases "nodeId \<in> recursionStack \<or> nodeId \<in> visited")
      case True
      then show ?thesis using 1(1,3) by (auto simp: hasCycle.psimps split: if_splits)
    next
      case False
      then obtain ns where ns: "neighbors rt g nodeId = Some ns"
        using 1(1,3) by (cases "neighbors rt g nodeId") (auto simp: hasCycle.psimps)
      then obtain c V S where r: "hasCycleFor rt g ns
          (insert nodeId visited, insert nodeId recursionStack) = Inr (c, (V, S))"
        using False 1(1,3)
        by (cases "hasCycleFor rt g ns (insert nodeId visited, insert nodeId recursionStack)")
           (auto simp: hasCycle.psimps)
      from 1(2) [OF _ _ ns r] False have "insert nodeId visited \<subseteq> V" by simp
      moreover have "fst st' = V"
        using False ns r 1(1,3) by (cases c) (auto simp: hasCycle.psimps)
      ultimately show ?thesis by auto
    qed
  next
    case (2 rt g st)
    then show ?case by (simp add: hasCycleFor.psimps)
  next
    case (3 rt g neighbor rest st)
    then obtain c st1 where r: "hasCycle rt g neighbor st = Inr (c, st1)"
      by (cases "hasCycle rt g neighbor st") (auto simp: hasCycleFor.psimps)
    have 1: "fst st \<subseteq> fst st1" using 3(2) [OF r] .
    show ?case
    proof (cases c)
      case True
      then show ?thesis using 3(1,4) r 1 by (simp add: hasCycleFor.psimps)
    next
      case False
      then have "hasCycleFor rt g rest st1 = Inr (b, st')"
        using 3(1,4) r by (simp add: hasCycleFor.psimps)
      from 3(3) [OF r refl _ this] False have "fst st1 \<subseteq> fst st'" by simp
      with 1 show ?thesis by simp
    qed
  qed
  show ?thesis
  proof (relation "measures
      [\<lambda>x. case x of Inl (rt, g, v, st) \<Rightarrow> card (fst ` set g - fst st)
                    | Inr (rt, g, ns, st) \<Rightarrow> card (fst ` set g - fst st),
       \<lambda>x. case x of Inl (rt, g, v, st) \<Rightarrow> 1
                    | Inr (rt, g, ns, st) \<Rightarrow> 2 * length ns]", goal_cases)
    case 1
    then show ?case by simp
  next
    case (2 rt g nodeId visited recursionStack ns)
    show ?case
    proof (cases "nodeId \<in> fst ` set g")
      case True
      then have "card (fst ` set g - insert nodeId visited) < card (fst ` set g - visited)"
        using 2 by (intro psubset_card_mono) auto
      then show ?thesis by simp
    next
      case False
      then have "map_of g nodeId = None" by (simp add: map_of_eq_None_iff)
      then have "ns = []"
        using 2 by (auto simp: neighbors_def getProperty_def split: if_splits)
      moreover have "fst ` set g - insert nodeId visited = fst ` set g - visited"
        using False by auto
      ultimately show ?thesis by simp
    qed
  next
    case (3 rt g neighbor rest st)
    then show ?case by simp
  next
    case (4 rt g neighbor rest st x xa y)
    then have "fst st \<subseteq> fst y"
      using mono(1) [of rt g neighbor st False y] by simp
    then have "card (fst ` set g - fst y) \<le> card (fst ` set g - fst st)"
      by (intro card_mono) auto
    then show ?case by auto
  qed
qed

declare hasCycle.simps [simp del]

definition cycleMsg :: ustring where
  "cycleMsg = ascii ''Potential infinite loop detected in the flowchart.''"

text \<open>The loop of \<open>detectCycles\<close> over the nodes; it stops at the first cycle.\<close>

fun detectCyclesFor :: "runtime \<Rightarrow> graph \<Rightarrow> flowchartNode list \<Rightarrow> dfs_state
    \<Rightarrow> js_error + ustring list" where
  "detectCyclesFor rt g [] st = Inr []"
| "detectCyclesFor rt g (n # ns) (visited, recursionStack) =
     (if node_id n \<notin> visited then
        (case hasCycle rt g (node_id n) (visited, recursionStack) of
           Inl e \<Rightarrow> Inl e
         | Inr (True, st') \<Rightarrow> Inr [cycleMsg]
         | Inr (False, st') \<Rightarrow> detectCyclesFor rt g ns st')
      else detectCyclesFor rt g ns (visited, recursionStack))"

definition detectCycles :: "runtime \<Rightarrow> flowchartNode list \<Rightarrow> flowchartEdge list
    \<Rightarrow> js_error + ustring list" where
  "detectCycles rt ns es =
     (case buildGraph rt es of
        Inl e \<Rightarrow> Inl e
      | Inr g \<Rightarrow> detectCyclesFor rt g ns ({}, {}))"

text \<open>
  Template literals. A number in a template is an array length or a count of edges, a
  natural number printed in decimal.
\<close>

function numberToString :: "nat \<Rightarrow> ustring" where
  "numberToString n =
     (if n < 10 then [of_nat (48 + n)]
      else numberToString (n div 10) @ [of_nat (48 + n mod 10)])"
  by pat_completeness auto
termination
  by (relation "measure id") auto

definition quote :: ustring where
  "quote = ascii [CHR 0x22]"

text \<open>\<open>node.value || `(ID: ${node.id})`\<close>\<close>

definition nodeLabel :: "flowchartNode \<Rightarrow> ustring" where
  "nodeLabel n =
     (if truthy (node_value n) then the (node_value n)
      else ascii ''(ID: '' @ node_id n @ ascii '')'')"

definition noStartMsg :: ustring where
  "noStartMsg = ascii ''Flowchart must have exactly one start node, but none were found.''"

definition manyStartMsg :: "nat \<Rightarrow> ustring" where
  "manyStartMsg k =
     ascii ''Flowchart must have exactly one start node, but '' @ numberToString k
       @ ascii '' were found.''"

definition noEndMsg :: ustring where
  "noEndMsg = ascii ''Flowchart must have at least one end node, but none were found.''"

definition disconnectedMsg :: "flowchartNode \<Rightarrow> ustring" where
  "disconnectedMsg n = ascii ''Node '' @ quote @ nodeLabel n @ quote @ ascii '' is disconnected.''"

definition branchMsg :: "flowchartNode \<Rightarrow> nat \<Rightarrow> ustring" where
  "branchMsg n outgoingCount =
     ascii ''Decision node '' @ quote @ nodeLabel n @ quote
       @ ascii '' should have at least two outgoing branches, but has ''
       @ numberToString outgoingCount @ ascii ''.''"

text \<open>
  The dead-end message starts with
  \<open>node.type?.charAt(0).toUpperCase() + node.type!.slice(1)\<close>; the type is the argument
  \<open>t\<close>, for a node that has one.
\<close>

definition deadEndMsg :: "runtime \<Rightarrow> ustring \<Rightarrow> flowchartNode \<Rightarrow> ustring" where
  "deadEndMsg rt t n =
     toUpperCase rt (take 1 t) @ drop 1 t @ ascii '' node '' @ quote @ nodeLabel n @ quote
       @ ascii '' is a dead end.''"

definition pushIssue :: "analysis \<Rightarrow> ustring \<Rightarrow> analysis" where
  "pushIssue a msg = a\<lparr>issues := issues a @ [msg]\<rparr>"

text \<open>The \<open>switch\<close> on \<open>node.type\<close>.\<close>

definition categorize :: "analysis \<Rightarrow> flowchartNode \<Rightarrow> analysis" where
  "categorize a n =
     (if node_type n = Some (ascii ''start'') then a\<lparr>startNodes := startNodes a @ [n]\<rparr>
      else if node_type n = Some (ascii ''end'') then a\<lparr>endNodes := endNodes a @ [n]\<rparr>
      else if node_type n = Some (ascii ''decision'')
      then a\<lparr>decisionNodes := decisionNodes a @ [n]\<rparr>
      else if node_type n = Some (ascii ''input'') \<or> node_type n = Some (ascii ''output'')
      then a\<lparr>ioNodes := ioNodes a @ [n]\<rparr>
      else a\<lparr>processNodes := processNodes a @ [n]\<rparr>)"

definition connectedNodeIds :: "flowchartEdge list \<Rightarrow> ustring set" where
  "connectedNodeIds es =
     foldl (\<lambda>ids edge.
        let ids1 = (if truthy (sourceId edge) then insert (the (sourceId edge)) ids else ids)
        in if truthy (targetId edge) then insert (the (targetId edge)) ids1 else ids1) {} es"

text \<open>
  The values that \<open>outgoingConnections\<close> holds and that the checks read: a number, or a
  value that is not a number. \<open>+ 1\<close> turns an inherited function into a text, and such a
  text into a longer one; these values are truthy, and \<open>< 2\<close> and \<open>=== 0\<close> are false for
  them. (The assignment to \<open>__proto__\<close> has no effect, and the property then reads as the
  prototype object, for which the same holds.)
\<close>

datatype jsvalue = Number nat | NotANumber

type_synonym counts = "(ustring \<times> jsvalue) list"

text \<open>\<open>counts[key] || 0\<close>\<close>

definition countOf :: "runtime \<Rightarrow> counts \<Rightarrow> ustring \<Rightarrow> jsvalue" where
  "countOf rt oc key =
     (case getProperty rt oc key of
        Own v \<Rightarrow> v
      | Inherited \<Rightarrow> NotANumber
      | Undefined \<Rightarrow> Number 0)"

text \<open>\<open>v + 1\<close>\<close>

definition plusOne :: "jsvalue \<Rightarrow> jsvalue" where
  "plusOne v = (case v of Number c \<Rightarrow> Number (c + 1) | NotANumber \<Rightarrow> NotANumber)"

definition outgoingConnections :: "runtime \<Rightarrow> flowchartEdge list \<Rightarrow> counts" where
  "outgoingConnections rt es =
     foldl (\<lambda>oc edge.
        if truthy (sourceId edge)
        then AList.update (the (sourceId edge)) (plusOne (countOf rt oc (the (sourceId edge)))) oc
        else oc) [] es"

text \<open>One iteration of the loop over the decision nodes.\<close>

definition branchCheck :: "runtime \<Rightarrow> counts \<Rightarrow> analysis \<Rightarrow> flowchartNode \<Rightarrow> analysis" where
  "branchCheck rt oc a n =
     (case countOf rt oc (node_id n) of
        Number outgoingCount \<Rightarrow>
          if outgoingCount < 2 then pushIssue a (branchMsg n outgoingCount) else a
      | NotANumber \<Rightarrow> a)"

text \<open>
  The dead-end loop. For a candidate without outgoing edge whose \<open>type\<close> is undefined,
  \<open>node.type!.slice(1)\<close> throws a \<open>TypeError\<close>, which leaves \<open>analyzeFlowchart\<close>.
\<close>

fun deadEndCheck :: "runtime \<Rightarrow> counts \<Rightarrow> flowchartNode list \<Rightarrow> analysis
    \<Rightarrow> js_error + analysis" where
  "deadEndCheck rt oc [] a = Inr a"
| "deadEndCheck rt oc (n # ns) a =
     (let outgoingCount = countOf rt oc (node_id n) in
      if outgoingCount = Number 0 then
        (case node_type n of
           None \<Rightarrow> Inl TypeError
         | Some t \<Rightarrow> deadEndCheck rt oc ns (pushIssue a (deadEndMsg rt t n)))
      else deadEndCheck rt oc ns a)"

text \<open>
  The analyzer. An exception of \<open>detectCycles\<close> or of the dead-end loop leaves it; nothing
  in it catches.
\<close>

definition analyzeFlowchart :: "runtime \<Rightarrow> extraction option \<Rightarrow> js_error + analysis option" where
  "analyzeFlowchart rt elems =
     (case elems of
        None \<Rightarrow> Inr None
      | Some els \<Rightarrow>
          if length (nodes els) = 0 then Inr None
          else
            let ns = nodes els; es = edges els;
                a0 = \<lparr> totalElements = length ns + length es, startNodes = [], endNodes = [],
                       decisionNodes = [], processNodes = [], ioNodes = [], connections = es,
                       issues = [] \<rparr>;
                a1 = foldl categorize a0 ns;
                a2 = (if length (startNodes a1) = 0 then pushIssue a1 noStartMsg
                      else if length (startNodes a1) > 1
                      then pushIssue a1 (manyStartMsg (length (startNodes a1)))
                      else a1);
                a3 = (if length (endNodes a2) = 0 then pushIssue a2 noEndMsg else a2);
                a4 = (if length ns > 1 then
                        (let ids = connectedNodeIds es in
                         foldl (\<lambda>a n. if node_id n \<notin> ids then pushIssue a (disconnectedMsg n)
                                       else a) a3 ns)
                      else a3)
            in (case detectCycles rt ns es of
                  Inl e \<Rightarrow> Inl e
                | Inr cycleIssues \<Rightarrow>
                    (let a5 = a4\<lparr>issues := issues a4 @ cycleIssues\<rparr>;
                         oc = outgoingConnections rt es;
                         a6 = foldl (branchCheck rt oc) a5 (decisionNodes a5);
                         deadEndCandidates = processNodes a6 @ ioNodes a6 @ decisionNodes a6
                     in (case deadEndCheck rt oc deadEndCandidates a6 of
                           Inl e \<Rightarrow> Inl e
                         | Inr a7 \<Rightarrow> Inr (Some a7)))))"

section \<open>The graph of a flowchart and the invariant of the search\<close>

text \<open>
  The directed graph that the claims about cycles speak of: an arc from the source to the
  target of every edge that has both.
\<close>

definition arcs :: "flowchartEdge list \<Rightarrow> (ustring \<times> ustring) set" where
  "arcs es = set (map (\<lambda>e. (the (sourceId e), the (targetId e)))
                   (filter (\<lambda>e. truthy (sourceId e) \<and> truthy (targetId e)) es))"

text \<open>
  The arcs of a dictionary of neighbour lists; a node reaches a cycle when some node on a
  cycle can be reached from it. The search keeps the nodes that are visited and no longer
  on the recursion stack finished: their successors are finished, and none of them
  lies on a cycle.
\<close>

definition succs :: "graph \<Rightarrow> (ustring \<times> ustring) set" where
  "succs g = {(u, w). \<exists>ns. map_of g u = Some ns \<and> w \<in> set ns}"

definition reachesCycle :: "(ustring \<times> ustring) set \<Rightarrow> ustring \<Rightarrow> bool" where
  "reachesCycle E v \<longleftrightarrow> (\<exists>c. (v, c) \<in> E\<^sup>* \<and> (c, c) \<in> E\<^sup>+)"

definition finished :: "graph \<Rightarrow> ustring set \<Rightarrow> bool" where
  "finished g B \<longleftrightarrow>
     (\<forall>u\<in>B. \<forall>w. (u, w) \<in> succs g \<longrightarrow> w \<in> B) \<and> (\<forall>u\<in>B. (u, u) \<notin> (succs g)\<^sup>+)"

definition dfs_inv :: "graph \<Rightarrow> dfs_state \<Rightarrow> bool" where
  "dfs_inv g st \<longleftrightarrow> snd st \<subseteq> fst st \<and> finished g (fst st - snd st)"

section \<open>Example documents\<close>

text \<open>
  A diagram without cells; an \<open>mxfile\<close> whose page cannot be decoded; a diagram whose only
  shape has neither value nor style; a diagram whose only shape has the identifier
  \<open>constructor\<close>; a diagram with such a shape and a shape with an edge to itself; and a
  node map with two ovals of the same style, value and topology flags around a text label.
\<close>

definition emptyDiagram :: document where
  "emptyDiagram = Document (Some (Element (ascii ''mxGraphModel'') []
     [Element (ascii ''root'') [] []]))"

definition wrappedGarbage :: document where
  "wrappedGarbage = Document (Some (Element (ascii ''mxfile'') []
     [Element (ascii ''diagram'') [(ascii ''name'', ascii ''Page-1'')] [Text (ascii ''!!!'')]]))"

definition unstyledVertex :: document where
  "unstyledVertex = Document (Some (Element (ascii ''mxGraphModel'') []
     [Element (ascii ''root'') []
        [Element (ascii ''mxCell'') [(ascii ''id'', ascii ''0'')] [],
         Element (ascii ''mxCell'') [(ascii ''id'', ascii ''1''), (ascii ''parent'', ascii ''0'')] [],
         Element (ascii ''mxCell'') [(ascii ''id'', ascii ''2''), (ascii ''vertex'', ascii ''1''),
            (ascii ''parent'', ascii ''1'')] []]]))"

definition constructorVertex :: document where
  "constructorVertex = Document (Some (Element (ascii ''mxGraphModel'') []
     [Element (ascii ''root'') []
        [Element (ascii ''mxCell'') [(ascii ''id'', ascii ''0'')] [],
         Element (ascii ''mxCell'') [(ascii ''id'', ascii ''1''), (ascii ''parent'', ascii ''0'')] [],
         Element (ascii ''mxCell'') [(ascii ''id'', ascii ''constructor''),
            (ascii ''value'', ascii ''x = 1''), (ascii ''vertex'', ascii ''1''),
            (ascii ''parent'', ascii ''1'')] []]]))"

definition constructorAndLoop :: document where
  "constructorAndLoop = Document (Some (Element (ascii ''mxGraphModel'') []
     [Element (ascii ''root'') []
        [Element (ascii ''mxCell'') [(ascii ''id'', ascii ''0'')] [],
         Element (ascii ''mxCell'') [(ascii ''id'', ascii ''1''), (ascii ''parent'', ascii ''0'')] [],
         Element (ascii ''mxCell'') [(ascii ''id'', ascii ''constructor''),
            (ascii ''value'', ascii ''x = 1''), (ascii ''vertex'', ascii ''1''),
            (ascii ''parent'', ascii ''1'')] [],
         Element (ascii ''mxCell'') [(ascii ''id'', ascii ''a''),
            (ascii ''value'', ascii ''x = x + 1''), (ascii ''vertex'', ascii ''1''),
            (ascii ''parent'', ascii ''1'')] [],
         Element (ascii ''mxCell'') [(ascii ''id'', ascii ''e''), (ascii ''edge'', ascii ''1''),
            (ascii ''parent'', ascii ''1''), (ascii ''source'', ascii ''a''),
            (ascii ''target'', ascii ''a'')] []]]))"

definition twoOvals :: nodeMap where
  "twoOvals =
     [(ascii ''2'', \<lparr> node = \<lparr> node_id = ascii ''2'', node_value = Some (ascii ''Go''),
          node_style = Some (ascii ''ellipse''), node_type = None, node_vertex = Some True,
          node_parentId = Some (ascii ''1'') \<rparr>, incoming = {}, outgoing = {ascii ''3''} \<rparr>),
      (ascii ''3'', \<lparr> node = \<lparr> node_id = ascii ''3'', node_value = Some (ascii ''label''),
          node_style = Some (ascii ''text;html=1''), node_type = None, node_vertex = Some True,
          node_parentId = Some (ascii ''1'') \<rparr>, incoming = {ascii ''2''}, outgoing = {} \<rparr>),
      (ascii ''4'', \<lparr> node = \<lparr> node_id = ascii ''4'', node_value = Some (ascii ''Go''),
          node_style = Some (ascii ''ellipse''), node_type = None, node_vertex = Some True,
          node_parentId = Some (ascii ''1'') \<rparr>, incoming = {}, outgoing = {ascii ''5''} \<rparr>)]"

section \<open>Example flowcharts\<close>

text \<open>A single node typed \<open>end\<close>.\<close>

definition endOnly :: extraction where
  "endOnly = \<lparr> nodes = [\<lparr> node_id = ascii ''2'', node_value = Some (ascii ''End''),
      node_style = Some (ascii ''ellipse''), node_type = Some (ascii ''end''),
      node_vertex = Some True, node_parentId = Some (ascii ''1'') \<rparr>], edges = [] \<rparr>"

text \<open>A node without type that has an edge to an end node.\<close>

definition untypedFirst :: extraction where
  "untypedFirst = \<lparr> nodes =
      [\<lparr> node_id = ascii ''a'', node_value = Some (ascii ''A''), node_style = None,
         node_type = None, node_vertex = None, node_parentId = None \<rparr>,
       \<lparr> node_id = ascii ''b'', node_value = Some (ascii ''B''), node_style = None,
         node_type = Some (ascii ''end''), node_vertex = None, node_parentId = None \<rparr>],
     edges = [\<lparr> edge_id = ascii ''e'', edge_value = None, edge_style = None, edge_edge = None,
                edge_parentId = None, sourceId = Some (ascii ''a''),
                targetId = Some (ascii ''b'') \<rparr>] \<rparr>"

text \<open>A node without type and without edge.\<close>

definition untypedOnly :: extraction where
  "untypedOnly = \<lparr> nodes =
      [\<lparr> node_id = ascii ''a'', node_value = Some (ascii ''A''), node_style = None,
         node_type = None, node_vertex = None, node_parentId = None \<rparr>],
     edges = [] \<rparr>"

text \<open>Three nodes on a cycle.\<close>

definition triangle :: extraction where
  "triangle = \<lparr> nodes =
      [\<lparr> node_id = ascii ''A'', node_value = Some (ascii ''read x''), node_style = None,
         node_type = Some (ascii ''input''), node_vertex = Some True, node_parentId = None \<rparr>,
       \<lparr> node_id = ascii ''B'', node_value = Some (ascii ''x = x + 1''), node_style = None,
         node_type = Some (ascii ''process''), node_vertex = Some True, node_parentId = None \<rparr>,
       \<lparr> node_id = ascii ''C'', node_value = Some (ascii ''print x''), node_style = None,
         node_type = Some (ascii ''output''), node_vertex = Some True, node_parentId = None \<rparr>],
     edges =
      [\<lparr> edge_id = ascii ''e1'', edge_value = None, edge_style = None, edge_edge = Some True,
         edge_parentId = None, sourceId = Some (ascii ''A''), targetId = Some (ascii ''B'') \<rparr>,
       \<lparr> edge_id = ascii ''e2'', edge_value = None, edge_style = None, edge_edge = Some True,
         edge_parentId = None, sourceId = Some (ascii ''B''), targetId = Some (ascii ''C'') \<rparr>,
       \<lparr> edge_id = ascii ''e3'', edge_value = None, edge_style = None, edge_edge = Some True,
         edge_parentId = None, sourceId = Some (ascii ''C''), targetId = Some (ascii ''A'') \<rparr>] \<rparr>"

text \<open>The same three nodes without cycle.\<close>

definition forkJoin :: extraction where
  "forkJoin = triangle\<lparr> edges :=
      [\<lparr> edge_id = ascii ''e1'', edge_value = None, edge_style = None, edge_edge = Some True,
         edge_parentId = None, sourceId = Some (ascii ''A''), targetId = Some (ascii ''B'') \<rparr>,
       \<lparr> edge_id = ascii ''e2'', edge_value = None, edge_style = None, edge_edge = Some True,
         edge_parentId = None, sourceId = Some (ascii ''B''), targetId = Some (ascii ''C'') \<rparr>,
       \<lparr> edge_id = ascii ''e3'', edge_value = None, edge_style = None, edge_edge = Some True,
         edge_parentId = None, sourceId = Some (ascii ''A''), targetId = Some (ascii ''C'') \<rparr>] \<rparr>"

text \<open>
  A decision node with one edge to a node and one edge without target, and the same
  flowchart where the third edge has a target but no source.
\<close>

definition danglingBranch :: extraction where
  "danglingBranch = \<lparr> nodes =
      [\<lparr> node_id = ascii ''s'', node_value = Some (ascii ''Start''), node_style = None,
         node_type = Some (ascii ''start''), node_vertex = Some True, node_parentId = None \<rparr>,
       \<lparr> node_id = ascii ''d'', node_value = Some (ascii ''x > 0?''), node_style = None,
         node_type = Some (ascii ''decision''), node_vertex = Some True, node_parentId = None \<rparr>,
       \<lparr> node_id = ascii ''e'', node_value = Some (ascii ''End''), node_style = None,
         node_type = Some (ascii ''end''), node_vertex = Some True, node_parentId = None \<rparr>],
     edges =
      [\<lparr> edge_id = ascii ''e1'', edge_value = None, edge_style = None, edge_edge = Some True,
         edge_parentId = None, sourceId = Some (ascii ''s''), targetId = Some (ascii ''d'') \<rparr>,
       \<lparr> edge_id = ascii ''e2'', edge_value = None, edge_style = None, edge_edge = Some True,
         edge_parentId = None, sourceId = Some (ascii ''d''), targetId = Some (ascii ''e'') \<rparr>,
       \<lparr> edge_id = ascii ''e3'', edge_value = None, edge_style = None, edge_edge = Some True,
         edge_parentId = None, sourceId = Some (ascii ''d''), targetId = None \<rparr>] \<rparr>"

definition singleBranch :: extraction where
  "singleBranch = \<lparr> nodes =
      [\<lparr> node_id = ascii ''s'', node_value = Some (ascii ''Start''), node_style = None,
         node_type = Some (ascii ''start''), node_vertex = Some True, node_parentId = None \<rparr>,
       \<lparr> node_id = ascii ''d'', node_value = Some (ascii ''x > 0?''), node_style = None,
         node_type = Some (ascii ''decision''), node_vertex = Some True, node_parentId = None \<rparr>,
       \<lparr> node_id = ascii ''e'', node_value = Some (ascii ''End''), node_style = None,
         node_type = Some (ascii ''end''), node_vertex = Some True, node_parentId = None \<rparr>],
     edges =
      [\<lparr> edge_id = ascii ''e1'', edge_value = None, edge_style = None, edge_edge = Some True,
         edge_parentId = None, sourceId = Some (ascii ''s''), targetId = Some (ascii ''d'') \<rparr>,
       \<lparr> edge_id = ascii ''e2'', edge_value = None, edge_style = None, edge_edge = Some True,
         edge_parentId = None, sourceId = Some (ascii ''d''), targetId = Some (ascii ''e'') \<rparr>,
       \<lparr> edge_id = ascii ''e3'', edge_value = None, edge_style = None, edge_edge = Some True,
         edge_parentId = None, sourceId = None, targetId = Some (ascii ''e'') \<rparr>] \<rparr>"

text \<open>
  A node whose identifier is the name of a property of \<open>Object.prototype\<close>; such a node
  before a node with an edge to itself; such a node before a decision node without edges;
  and a decision node with such an identifier after a node with an edge to itself. The
  first two are what the extractor returns for the diagrams \<open>constructorVertex\<close> and
  \<open>constructorAndLoop\<close>.
\<close>

definition constructorOnly :: extraction where
  "constructorOnly = \<lparr> nodes =
      [\<lparr> node_id = ascii ''constructor'', node_value = Some (ascii ''x = 1''), node_style = None,
         node_type = Some (ascii ''process''), node_vertex = Some True,
         node_parentId = Some (ascii ''1'') \<rparr>],
     edges = [] \<rparr>"

definition constructorThenLoop :: extraction where
  "constructorThenLoop = \<lparr> nodes =
      [\<lparr> node_id = ascii ''constructor'', node_value = Some (ascii ''x = 1''), node_style = None,
         node_type = Some (ascii ''process''), node_vertex = Some True,
         node_parentId = Some (ascii ''1'') \<rparr>,
       \<lparr> node_id = ascii ''a'', node_value = Some (ascii ''x = x + 1''), node_style = None,
         node_type = Some (ascii ''process''), node_vertex = Some True,
         node_parentId = Some (ascii ''1'') \<rparr>],
     edges =
      [\<lparr> edge_id = ascii ''e'', edge_value = None, edge_style = None, edge_edge = Some True,
         edge_parentId = Some (ascii ''1''), sourceId = Some (ascii ''a''),
         targetId = Some (ascii ''a'') \<rparr>] \<rparr>"

definition constructorBeforeDecision :: extraction where
  "constructorBeforeDecision = \<lparr> nodes =
      [\<lparr> node_id = ascii ''constructor'', node_value = Some (ascii ''x = 1''), node_style = None,
         node_type = Some (ascii ''process''), node_vertex = Some True, node_parentId = None \<rparr>,
       \<lparr> node_id = ascii ''d'', node_value = Some (ascii ''x > 0?''), node_style = None,
         node_type = Some (ascii ''decision''), node_vertex = Some True, node_parentId = None \<rparr>],
     edges = [] \<rparr>"

definition constructorDecision :: extraction where
  "constructorDecision = \<lparr> nodes =
      [\<lparr> node_id = ascii ''a'', node_value = Some (ascii ''x = 1''), node_style = None,
         node_type = Some (ascii ''process''), node_vertex = Some True, node_parentId = None \<rparr>,
       \<lparr> node_id = ascii ''constructor'', node_value = Some (ascii ''x > 0?''), node_style = None,
         node_type = Some (ascii ''decision''), node_vertex = Some True, node_parentId = None \<rparr>],
     edges =
      [\<lparr> edge_id = ascii ''e1'', edge_value = None, edge_style = None, edge_edge = Some True,
         edge_parentId = None, sourceId = Some (ascii ''a''), targetId = Some (ascii ''a'') \<rparr>] \<rparr>"

section \<open>Properties of the content decoder\<close>

lemma ascii_Nil [simp]: "ascii [] = []"
  by (simp add: ascii_def)

lemma ascii_Cons [simp]: "ascii (c # cs) = of_char c # ascii cs"
  by (simp add: ascii_def)

lemma inflateBlock_looks_like_xml:
  "inflateBlock rt b = Some xml \<Longrightarrow> startsWith (trim xml) (ascii ''<'')"
  by (auto simp: inflateBlock_def split: option.splits if_splits)

text \<open>
  C1. An input whose trimmed form starts with \<open><\<close> is returned unchanged, whatever the
  runtime's decoders do.
\<close>

theorem decode_pass_through:
  "startsWith (trim s) (ascii ''<'') \<Longrightarrow> decodeDiagramContent rt s = s"
  by (auto simp: decodeDiagramContent_def)

theorem decode_pass_through_witness:
  "startsWith (trim (ascii '' <a/>'')) (ascii ''<'')
   \<and> decodeDiagramContent asciiRuntime (ascii '' <a/>'') = ascii '' <a/>''"
proof -
  have h: "startsWith (trim (ascii '' <a/>'')) (ascii ''<'')"
    by (simp add: startsWith_def trim_def isWhiteSpace_def)
  from h decode_pass_through [OF h, of asciiRuntime] show ?thesis by simp
qed

text \<open>
  C9. The result of the decoder is the empty string or a string whose trimmed form starts
  with \<open><\<close>. Every call that can throw sits in a \<open>try\<close> block whose \<open>catch\<close> falls through to
  the next strategy, so the decoder is a total function of its input: it has a result for
  every input and every behaviour of the runtime.
\<close>

theorem decode_result_empty_or_xml:
  "decodeDiagramContent rt s = [] \<or> startsWith (trim (decodeDiagramContent rt s)) (ascii ''<'')"
  by (auto simp: decodeDiagramContent_def Let_def split: option.splits
           dest: inflateBlock_looks_like_xml)

section \<open>Properties of the node classifier\<close>

text \<open>
  C5. A node whose style falls into the oval bucket is typed by topology first: \<open>start\<close>
  without incoming and with outgoing edges, \<open>end\<close> with incoming and without outgoing
  edges; otherwise by its content type when that is \<open>start\<close> or \<open>end\<close>; otherwise \<open>end\<close>
  when it has an incoming edge and \<open>start\<close> when it has none.
\<close>

theorem oval_classification:
  assumes "detectShapeType rt (orEmpty style) = ascii ''oval''"
  shows "classify rt style v hasIncoming hasOutgoing =
     (if \<not> hasIncoming \<and> hasOutgoing then ascii ''start''
      else if hasIncoming \<and> \<not> hasOutgoing then ascii ''end''
      else if analyzeNodeContent rt (orEmpty v) = ascii ''start''
              \<or> analyzeNodeContent rt (orEmpty v) = ascii ''end''
      then analyzeNodeContent rt (orEmpty v)
      else if hasIncoming then ascii ''end'' else ascii ''start'')"
  using assms by (simp add: classify_def determineNodeType_def)

theorem oval_classification_witness:
  "detectShapeType asciiRuntime (orEmpty (Some (ascii ''Ellipse;html=1''))) = ascii ''oval''
   \<and> classify asciiRuntime (Some (ascii ''Ellipse;html=1'')) (Some (ascii ''All done'')) True True
       = ascii ''end''
   \<and> classify asciiRuntime (Some (ascii ''Ellipse;html=1'')) (Some (ascii ''x = 1'')) False False
       = ascii ''start''"
proof -
  have h: "detectShapeType asciiRuntime (orEmpty (Some (ascii ''Ellipse;html=1''))) = ascii ''oval''"
    by (simp add: detectShapeType_def asciiRuntime_def orEmpty_def asciiLower_def)
  have c1: "analyzeNodeContent asciiRuntime (orEmpty (Some (ascii ''All done''))) = ascii ''end''"
    by (simp add: analyzeNodeContent_def someKeyword_def trim_def isWhiteSpace_def
          asciiRuntime_def orEmpty_def asciiLower_def)
  have c2: "analyzeNodeContent asciiRuntime (orEmpty (Some (ascii ''x = 1''))) = ascii ''process''"
    by (simp add: analyzeNodeContent_def someKeyword_def trim_def isWhiteSpace_def
          asciiRuntime_def orEmpty_def asciiLower_def)
  have "classify asciiRuntime (Some (ascii ''Ellipse;html=1'')) (Some (ascii ''All done''))
          True True = ascii ''end''"
    using oval_classification [OF h, of "Some (ascii ''All done'')" True True]
    unfolding c1 by simp
  moreover have "classify asciiRuntime (Some (ascii ''Ellipse;html=1'')) (Some (ascii ''x = 1''))
          False False = ascii ''start''"
    using oval_classification [OF h, of "Some (ascii ''x = 1'')" False False]
    unfolding c2 by simp
  ultimately show ?thesis using h by blast
qed

lemmas classify_eval = classify_def detectShapeType_def determineNodeType_def
  analyzeNodeContent_def someKeyword_def trim_def isWhiteSpace_def asciiRuntime_def orEmpty_def
  asciiLower_def skipsContainer_def skipsTextLabel_def skipsEmpty_def truthy_def

text \<open>
  C8. The second pass of the extractor gives every node that it keeps the type
  \<open>classify rt style value hasIncoming hasOutgoing\<close> of the node's own style, value and
  two topology flags: the type does not depend on the position of the node in the map, on
  the other nodes, on the nodes emitted so far or on the statistics counters, the only
  state that the loop carries.
\<close>

theorem classification_pure:
  "fst (secondPass rt nm (ns, stats)) =
     ns @ map (\<lambda>(nodeId, d). (node d)\<lparr>node_type :=
                 Some (classify rt (node_style (node d)) (node_value (node d))
                         (incoming d \<noteq> {}) (outgoing d \<noteq> {}))\<rparr>)
            (filter (\<lambda>(nodeId, d). \<not> skipsContainer (node d) \<and> \<not> skipsTextLabel (node d)
                                   \<and> \<not> skipsEmpty (node d)) nm)"
proof (induction nm arbitrary: ns stats)
  case Nil
  show ?case by simp
next
  case (Cons p nm)
  obtain k d where p: "p = (k, d)" by (cases p)
  show ?case unfolding p by (simp add: Let_def Cons.IH classify_def)
qed

theorem classification_pure_witness:
  "map node_type (fst (secondPass asciiRuntime twoOvals ([], typeStats0)))
     = [Some (ascii ''start''), Some (ascii ''start'')]
   \<and> map node_type (fst (secondPass asciiRuntime (rev twoOvals) ([], typeStats0)))
     = [Some (ascii ''start''), Some (ascii ''start'')]"
  using classification_pure [of asciiRuntime twoOvals "[]" typeStats0]
    classification_pure [of asciiRuntime "rev twoOvals" "[]" typeStats0]
  by (simp add: twoOvals_def classify_eval)

section \<open>Properties of the element extractor\<close>

lemmas extract_eval = extractFlowchartElements_def unwrapMxfile_def getElementsByTagName_def
  allTextNodes_def processCell_def cellValue_def orUndefined_def truthy_def Let_def
  decodeDiagramContent_def inflateBlock_def b64ToUint8_def decodeHtml_def startsWith_def
  trim_def isWhiteSpace_def asciiRuntime_def typeStats0_def countType_def
  skipsContainer_def skipsTextLabel_def skipsEmpty_def detectShapeType_def
  analyzeNodeContent_def determineNodeType_def orEmpty_def

lemma emptyDiagram_result:
  "extractFlowchartElements asciiRuntime (Some emptyDiagram) = Some \<lparr> nodes = [], edges = [] \<rparr>"
  by (simp add: extract_eval emptyDiagram_def)

text \<open>
  C6, as amended. The extractor returns null exactly when the document is null, or it has
  no root element, or its root is an \<open>mxfile\<close> whose first \<open>diagram\<close> element has text that
  the content decoder cannot decode or that decodes to XML with a parser error. For every
  other document, an empty diagram among them, it returns node and edge collections.
\<close>

theorem extract_null_iff:
  "extractFlowchartElements rt xmlDoc = None \<longleftrightarrow>
     xmlDoc = None
     \<or> (\<exists>doc. xmlDoc = Some doc \<and> documentElement doc = None)
     \<or> (\<exists>doc root d ds. xmlDoc = Some doc \<and> documentElement doc = Some root
           \<and> tagName root = ascii ''mxfile''
           \<and> getElementsByTagName doc (ascii ''diagram'') = d # ds
           \<and> textContent d \<noteq> []
           \<and> (decodeDiagramContent rt (textContent d) = []
              \<or> getElementsByTagName
                   (parseFromString rt (decodeDiagramContent rt (textContent d)))
                   (ascii ''parsererror'') \<noteq> []))"
  by (auto simp: extractFlowchartElements_def unwrapMxfile_def Let_def
           split: option.splits list.splits prod.splits if_splits)

theorem extract_null_iff_witness:
  "extractFlowchartElements asciiRuntime (Some emptyDiagram) \<noteq> None
   \<and> extractFlowchartElements asciiRuntime (Some wrappedGarbage) = None"
proof -
  have "getElementsByTagName wrappedGarbage (ascii ''diagram'')
          = [Element (ascii ''diagram'') [(ascii ''name'', ascii ''Page-1'')] [Text (ascii ''!!!'')]]"
    by (simp add: getElementsByTagName_def wrappedGarbage_def)
  moreover have "decodeDiagramContent asciiRuntime (ascii ''!!!'') = []"
    by (simp add: extract_eval)
  ultimately have "extractFlowchartElements asciiRuntime (Some wrappedGarbage) = None"
    unfolding extract_null_iff by (simp add: wrappedGarbage_def)
  moreover have "extractFlowchartElements asciiRuntime (Some emptyDiagram) \<noteq> None"
    unfolding extract_null_iff by (simp add: emptyDiagram_def)
  ultimately show ?thesis by blast
qed

text \<open>
  The claim as stated fails: the document below is not null and has a root element, and
  the extractor returns null for it, because the text of its page is not decodable.
\<close>

theorem extract_wrapped_garbage_counterexample:
  "documentElement wrappedGarbage \<noteq> None
   \<and> extractFlowchartElements asciiRuntime (Some wrappedGarbage) = None"
  by (simp add: extract_eval wrappedGarbage_def)

text \<open>
  A node without value, or with a value of white space, whose style is not empty and has no
  \<open>group\<close> marker is skipped.
\<close>

lemma styled_empty_vertex_skipped:
  assumes "truthy (node_style (node d))"
    and "\<not> includes_str (the (node_style (node d))) (ascii ''group'')"
    and "\<not> truthy (node_value (node d)) \<or> trim (the (node_value (node d))) = []"
  shows "secondPass rt ((k, d) # rest) (ns, stats) = secondPass rt rest (ns, stats)"
  using assms by (simp add: skipsEmpty_def Let_def)

text \<open>
  C7. The claim does not hold of the code: a vertex cell without value and without style
  has neither a value nor a \<open>group\<close> marker, and the extractor returns it as a node (typed
  \<open>process\<close>). The test that skips empty shapes reads
  \<open>(!node.value || node.value.trim() === '') && (node.style && !node.style.includes('group'))\<close>,
  and its second half is false for a node without style.
\<close>

theorem unstyled_empty_vertex_kept:
  "extractFlowchartElements asciiRuntime (Some unstyledVertex) =
     Some \<lparr> nodes = [\<lparr> node_id = ascii ''2'', node_value = None, node_style = None,
                        node_type = Some (ascii ''process''), node_vertex = Some True,
                        node_parentId = Some (ascii ''1'') \<rparr>],
            edges = [] \<rparr>"
  by (simp add: extract_eval unstyledVertex_def)

section \<open>Properties of the graph analyzer\<close>

subsection \<open>The result is the input partitioned and a list of issues in six segments\<close>

lemma categorize_fold:
  "startNodes (foldl categorize a ns) = startNodes a @ filter (\<lambda>n. node_type n = Some (ascii ''start'')) ns"
  "endNodes (foldl categorize a ns) = endNodes a @ filter (\<lambda>n. node_type n = Some (ascii ''end'')) ns"
  "decisionNodes (foldl categorize a ns) =
     decisionNodes a @ filter (\<lambda>n. node_type n = Some (ascii ''decision'')) ns"
  "ioNodes (foldl categorize a ns) =
     ioNodes a @ filter (\<lambda>n. node_type n = Some (ascii ''input'')
                            \<or> node_type n = Some (ascii ''output'')) ns"
  "processNodes (foldl categorize a ns) =
     processNodes a @ filter (\<lambda>n. node_type n \<notin> {Some (ascii ''start''), Some (ascii ''end''),
        Some (ascii ''decision''), Some (ascii ''input''), Some (ascii ''output'')}) ns"
  "totalElements (foldl categorize a ns) = totalElements a"
  "connections (foldl categorize a ns) = connections a"
  "issues (foldl categorize a ns) = issues a"
  by (induction ns arbitrary: a; simp add: categorize_def)+

lemma pushIssue_fold:
  "foldl (\<lambda>a n. if P n then pushIssue a (f n) else a) a ns
     = a\<lparr>issues := issues a @ map f (filter P ns)\<rparr>"
  by (induction ns arbitrary: a) (simp_all add: pushIssue_def)

lemma deadEndCheck_result:
  "deadEndCheck rt oc cs a = Inr a' \<Longrightarrow>
     a' = a\<lparr>issues := issues a @ map (\<lambda>n. deadEndMsg rt (the (node_type n)) n)
                                    (filter (\<lambda>n. countOf rt oc (node_id n) = Number 0) cs)\<rparr>"
proof (induction cs arbitrary: a)
  case Nil
  then show ?case by simp
next
  case (Cons n cs)
  show ?case
  proof (cases "countOf rt oc (node_id n) = Number 0")
    case True
    then obtain t where t: "node_type n = Some t"
      using Cons.prems by (cases "node_type n") (simp_all add: Let_def)
    then have "deadEndCheck rt oc cs (pushIssue a (deadEndMsg rt t n)) = Inr a'"
      using Cons.prems True by (simp add: Let_def)
    from Cons.IH [OF this] show ?thesis using True t by (simp add: pushIssue_def)
  next
    case False
    then have "deadEndCheck rt oc cs a = Inr a'" using Cons.prems by (simp add: Let_def)
    from Cons.IH [OF this] show ?thesis using False by simp
  qed
qed

lemma deadEndCheck_throws:
  "(\<exists>e. deadEndCheck rt oc cs a = Inl e)
     \<longleftrightarrow> (\<exists>n\<in>set cs. countOf rt oc (node_id n) = Number 0 \<and> node_type n = None)"
  by (induction cs arbitrary: a) (auto simp: Let_def split: option.splits)


lemma branchCheck_fold:
  "foldl (branchCheck rt oc) a ns
     = a\<lparr>issues := issues a @ List.map_filter (\<lambda>n. case countOf rt oc (node_id n) of
            Number c \<Rightarrow> if c < 2 then Some (branchMsg n c) else None
          | NotANumber \<Rightarrow> None) ns\<rparr>"
  by (induction ns arbitrary: a)
     (simp_all add: branchCheck_def pushIssue_def List.map_filter_simps split: jsvalue.splits)

lemma analyze_result:
  assumes "analyzeFlowchart rt (Some els) = Inr (Some a)"
  shows "nodes els \<noteq> []"
    and "totalElements a = length (nodes els) + length (edges els)"
    and "connections a = edges els"
    and "startNodes a = filter (\<lambda>n. node_type n = Some (ascii ''start'')) (nodes els)"
    and "endNodes a = filter (\<lambda>n. node_type n = Some (ascii ''end'')) (nodes els)"
    and "decisionNodes a = filter (\<lambda>n. node_type n = Some (ascii ''decision'')) (nodes els)"
    and "ioNodes a = filter (\<lambda>n. node_type n = Some (ascii ''input'')
                                \<or> node_type n = Some (ascii ''output'')) (nodes els)"
    and "processNodes a = filter (\<lambda>n. node_type n \<notin> {Some (ascii ''start''),
           Some (ascii ''end''), Some (ascii ''decision''), Some (ascii ''input''),
           Some (ascii ''output'')}) (nodes els)"
    and "\<exists>cycleIssues. detectCycles rt (nodes els) (edges els) = Inr cycleIssues \<and>
     issues a =
       (if startNodes a = [] then [noStartMsg]
        else if length (startNodes a) > 1 then [manyStartMsg (length (startNodes a))] else [])
       @ (if endNodes a = [] then [noEndMsg] else [])
       @ (if length (nodes els) > 1
          then map disconnectedMsg
                 (filter (\<lambda>n. node_id n \<notin> connectedNodeIds (edges els)) (nodes els))
          else [])
       @ cycleIssues
       @ List.map_filter
           (\<lambda>n. case countOf rt (outgoingConnections rt (edges els)) (node_id n) of
                  Number c \<Rightarrow> if c < 2 then Some (branchMsg n c) else None
                | NotANumber \<Rightarrow> None)
           (decisionNodes a)
       @ map (\<lambda>n. deadEndMsg rt (the (node_type n)) n)
           (filter (\<lambda>n. countOf rt (outgoingConnections rt (edges els)) (node_id n) = Number 0)
              (processNodes a @ ioNodes a @ decisionNodes a))"
proof -
  show ne: "nodes els \<noteq> []"
    using assms by (auto simp: analyzeFlowchart_def split: if_splits)
  define a0 where "a0 = \<lparr> totalElements = length (nodes els) + length (edges els),
     startNodes = [], endNodes = [], decisionNodes = [], processNodes = [], ioNodes = [],
     connections = edges els, issues = [] \<rparr>"
  define a1 where "a1 = foldl categorize a0 (nodes els)"
  define a2 where "a2 = (if length (startNodes a1) = 0 then pushIssue a1 noStartMsg
     else if length (startNodes a1) > 1 then pushIssue a1 (manyStartMsg (length (startNodes a1)))
     else a1)"
  define a3 where "a3 = (if length (endNodes a2) = 0 then pushIssue a2 noEndMsg else a2)"
  define a4 where "a4 = (if length (nodes els) > 1 then
     foldl (\<lambda>a n. if node_id n \<notin> connectedNodeIds (edges els)
                   then pushIssue a (disconnectedMsg n) else a) a3 (nodes els) else a3)"
  define oc where "oc = outgoingConnections rt (edges els)"
  have unfold: "analyzeFlowchart rt (Some els) =
      (case detectCycles rt (nodes els) (edges els) of
         Inl e \<Rightarrow> Inl e
       | Inr cycleIssues \<Rightarrow>
           (case deadEndCheck rt oc
                   (processNodes (foldl (branchCheck rt oc) (a4\<lparr>issues := issues a4 @ cycleIssues\<rparr>)
                                    (decisionNodes (a4\<lparr>issues := issues a4 @ cycleIssues\<rparr>)))
                    @ ioNodes (foldl (branchCheck rt oc) (a4\<lparr>issues := issues a4 @ cycleIssues\<rparr>)
                                (decisionNodes (a4\<lparr>issues := issues a4 @ cycleIssues\<rparr>)))
                    @ decisionNodes (foldl (branchCheck rt oc) (a4\<lparr>issues := issues a4 @ cycleIssues\<rparr>)
                                (decisionNodes (a4\<lparr>issues := issues a4 @ cycleIssues\<rparr>))))
                   (foldl (branchCheck rt oc) (a4\<lparr>issues := issues a4 @ cycleIssues\<rparr>)
                      (decisionNodes (a4\<lparr>issues := issues a4 @ cycleIssues\<rparr>))) of
              Inl e \<Rightarrow> Inl e | Inr a7 \<Rightarrow> Inr (Some a7)))"
    unfolding analyzeFlowchart_def Let_def oc_def a4_def a3_def a2_def a1_def a0_def
    using ne by (simp only: option.case length_0_conv if_False)
  from assms obtain cyc where cyc: "detectCycles rt (nodes els) (edges els) = Inr cyc"
    unfolding unfold by (cases "detectCycles rt (nodes els) (edges els)") simp_all
  define a5 where "a5 = a4\<lparr>issues := issues a4 @ cyc\<rparr>"
  define a6 where "a6 = foldl (branchCheck rt oc) a5 (decisionNodes a5)"
  have run: "deadEndCheck rt oc (processNodes a6 @ ioNodes a6 @ decisionNodes a6) a6 = Inr a"
    using assms unfolding unfold cyc a6_def a5_def by (simp split: sum.splits)
  have a6: "a6 = a5\<lparr>issues := issues a5 @ List.map_filter
       (\<lambda>n. case countOf rt oc (node_id n) of
              Number c \<Rightarrow> if c < 2 then Some (branchMsg n c) else None
            | NotANumber \<Rightarrow> None) (decisionNodes a5)\<rparr>"
    unfolding a6_def by (rule branchCheck_fold)
  have a4: "a4 = a3\<lparr>issues := issues a3 @ (if length (nodes els) > 1
      then map disconnectedMsg
             (filter (\<lambda>n. node_id n \<notin> connectedNodeIds (edges els)) (nodes els)) else [])\<rparr>"
    unfolding a4_def by (simp add: pushIssue_fold)
  have a3: "a3 = a2\<lparr>issues := issues a2 @ (if endNodes a2 = [] then [noEndMsg] else [])\<rparr>"
    unfolding a3_def by (simp add: pushIssue_def)
  have a2: "a2 = a1\<lparr>issues := issues a1 @ (if startNodes a1 = [] then [noStartMsg]
      else if length (startNodes a1) > 1 then [manyStartMsg (length (startNodes a1))] else [])\<rparr>"
    unfolding a2_def by (simp add: pushIssue_def)
  have a1: "startNodes a1 = filter (\<lambda>n. node_type n = Some (ascii ''start'')) (nodes els)"
    "endNodes a1 = filter (\<lambda>n. node_type n = Some (ascii ''end'')) (nodes els)"
    "decisionNodes a1 = filter (\<lambda>n. node_type n = Some (ascii ''decision'')) (nodes els)"
    "ioNodes a1 = filter (\<lambda>n. node_type n = Some (ascii ''input'')
                                \<or> node_type n = Some (ascii ''output'')) (nodes els)"
    "processNodes a1 = filter (\<lambda>n. node_type n \<notin> {Some (ascii ''start''),
           Some (ascii ''end''), Some (ascii ''decision''), Some (ascii ''input''),
           Some (ascii ''output'')}) (nodes els)"
    "totalElements a1 = length (nodes els) + length (edges els)"
    "connections a1 = edges els" "issues a1 = []"
    unfolding a1_def categorize_fold by (simp_all add: a0_def)
  note res = deadEndCheck_result [OF run]
  show "totalElements a = length (nodes els) + length (edges els)"
    and "connections a = edges els"
    by (simp_all add: res a6 a5_def a4 a3 a2 a1)
  show s: "startNodes a = filter (\<lambda>n. node_type n = Some (ascii ''start'')) (nodes els)"
    and e: "endNodes a = filter (\<lambda>n. node_type n = Some (ascii ''end'')) (nodes els)"
    and d: "decisionNodes a = filter (\<lambda>n. node_type n = Some (ascii ''decision'')) (nodes els)"
    and i: "ioNodes a = filter (\<lambda>n. node_type n = Some (ascii ''input'')
                                \<or> node_type n = Some (ascii ''output'')) (nodes els)"
    and p: "processNodes a = filter (\<lambda>n. node_type n \<notin> {Some (ascii ''start''),
           Some (ascii ''end''), Some (ascii ''decision''), Some (ascii ''input''),
           Some (ascii ''output'')}) (nodes els)"
    by (simp_all add: res a6 a5_def a4 a3 a2 a1)
  have b: "startNodes a6 = startNodes a" "endNodes a6 = endNodes a"
    "decisionNodes a6 = decisionNodes a" "ioNodes a6 = ioNodes a"
    "processNodes a6 = processNodes a"
    by (simp_all add: res)
  have b1: "startNodes a1 = startNodes a" "endNodes a1 = endNodes a"
    "decisionNodes a1 = decisionNodes a"
    by (simp_all add: s e d a1)
  have "issues a = issues a6 @ map (\<lambda>n. deadEndMsg rt (the (node_type n)) n)
           (filter (\<lambda>n. countOf rt oc (node_id n) = Number 0)
              (processNodes a @ ioNodes a @ decisionNodes a))"
    by (subst res) (simp add: b)
  also have "issues a6 = issues a5 @ List.map_filter
       (\<lambda>n. case countOf rt oc (node_id n) of
              Number c \<Rightarrow> if c < 2 then Some (branchMsg n c) else None
            | NotANumber \<Rightarrow> None) (decisionNodes a)"
    by (subst a6) (simp add: a5_def a4 a3 a2 b1)
  also have "issues a5 = (if startNodes a = [] then [noStartMsg]
        else if length (startNodes a) > 1 then [manyStartMsg (length (startNodes a))] else [])
       @ (if endNodes a = [] then [noEndMsg] else [])
       @ (if length (nodes els) > 1
          then map disconnectedMsg
                 (filter (\<lambda>n. node_id n \<notin> connectedNodeIds (edges els)) (nodes els))
          else [])
       @ cyc"
    by (simp add: a5_def a4 a3 a2 b1 a1(8))
  finally have "issues a =
       (if startNodes a = [] then [noStartMsg]
        else if length (startNodes a) > 1 then [manyStartMsg (length (startNodes a))] else [])
       @ (if endNodes a = [] then [noEndMsg] else [])
       @ (if length (nodes els) > 1
          then map disconnectedMsg
                 (filter (\<lambda>n. node_id n \<notin> connectedNodeIds (edges els)) (nodes els))
          else [])
       @ cyc
       @ List.map_filter
           (\<lambda>n. case countOf rt (outgoingConnections rt (edges els)) (node_id n) of
                  Number c \<Rightarrow> if c < 2 then Some (branchMsg n c) else None
                | NotANumber \<Rightarrow> None)
           (decisionNodes a)
       @ map (\<lambda>n. deadEndMsg rt (the (node_type n)) n)
           (filter (\<lambda>n. countOf rt (outgoingConnections rt (edges els)) (node_id n) = Number 0)
              (processNodes a @ ioNodes a @ decisionNodes a))"
    by (simp add: oc_def)
  with cyc show "\<exists>cycleIssues. detectCycles rt (nodes els) (edges els) = Inr cycleIssues \<and>
     issues a =
       (if startNodes a = [] then [noStartMsg]
        else if length (startNodes a) > 1 then [manyStartMsg (length (startNodes a))] else [])
       @ (if endNodes a = [] then [noEndMsg] else [])
       @ (if length (nodes els) > 1
          then map disconnectedMsg
                 (filter (\<lambda>n. node_id n \<notin> connectedNodeIds (edges els)) (nodes els))
          else [])
       @ cycleIssues
       @ List.map_filter
           (\<lambda>n. case countOf rt (outgoingConnections rt (edges els)) (node_id n) of
                  Number c \<Rightarrow> if c < 2 then Some (branchMsg n c) else None
                | NotANumber \<Rightarrow> None)
           (decisionNodes a)
       @ map (\<lambda>n. deadEndMsg rt (the (node_type n)) n)
           (filter (\<lambda>n. countOf rt (outgoingConnections rt (edges els)) (node_id n) = Number 0)
              (processNodes a @ ioNodes a @ decisionNodes a))"
    by blast
qed

subsection \<open>The depth-first search\<close>

text \<open>
  A call of \<open>hasCycle\<close> that returns false leaves the recursion stack as it found it, has
  visited its node, and keeps the invariant; a call that returns true has found a node
  that reaches a cycle, when every node on the recursion stack reaches the node it is
  called for.
\<close>

lemma closed_reach:
  assumes "\<forall>u\<in>B. \<forall>w. (u, w) \<in> E \<longrightarrow> w \<in> B" "(u, x) \<in> E\<^sup>*" "u \<in> B"
  shows "x \<in> B"
  using assms(2,3,1) by (induction rule: rtrancl_induct) auto

lemma neighbors_succs:
  "neighbors rt g v = Some ns \<Longrightarrow> set ns = {w. (v, w) \<in> succs g}"
  by (auto simp: neighbors_def getProperty_def succs_def split: option.splits if_splits)

lemma finished_insert:
  assumes "finished g B" "{w. (v, w) \<in> succs g} \<subseteq> B" "v \<notin> B"
  shows "finished g (insert v B)"
proof -
  have closed: "\<forall>u\<in>B. \<forall>w. (u, w) \<in> succs g \<longrightarrow> w \<in> B"
    using assms(1) unfolding finished_def by blast
  have "(v, v) \<notin> (succs g)\<^sup>+"
  proof
    assume "(v, v) \<in> (succs g)\<^sup>+"
    then obtain w where w: "(v, w) \<in> succs g" "(w, v) \<in> (succs g)\<^sup>*"
      by (meson tranclD)
    then have "w \<in> B" using assms(2) by auto
    with closed w(2) have "v \<in> B" by (rule closed_reach)
    then show False using assms(3) by simp
  qed
  moreover have "\<forall>w. (v, w) \<in> succs g \<longrightarrow> w \<in> insert v B"
    using assms(2) by auto
  ultimately show ?thesis using assms(1) unfolding finished_def by blast
qed

lemma hasCycle_unvisited_cases:
  assumes "hasCycle rt g v (vis, stk) = Inr (c, st')" "v \<notin> stk" "v \<notin> vis"
  obtains ns V S where "neighbors rt g v = Some ns"
    and "hasCycleFor rt g ns (insert v vis, insert v stk) = Inr (c, (V, S))"
    and "st' = (if c then (V, S) else (V, S - {v}))"
proof -
  from assms obtain ns where ns: "neighbors rt g v = Some ns"
    by (cases "neighbors rt g v") (auto simp: hasCycle.simps)
  with assms obtain b V S where r:
    "hasCycleFor rt g ns (insert v vis, insert v stk) = Inr (b, (V, S))"
    by (cases "hasCycleFor rt g ns (insert v vis, insert v stk)") (auto simp: hasCycle.simps)
  with assms ns have "c = b" "st' = (if c then (V, S) else (V, S - {v}))"
    by (cases b; simp add: hasCycle.simps; fail)+
  with ns r that show thesis by blast
qed

lemma hasCycleFor_Cons_cases:
  assumes "hasCycleFor rt g (n # rest) st = Inr (c, st')"
  obtains st1 where "hasCycle rt g n st = Inr (True, st1)" "c" "st' = st1"
  | st1 where "hasCycle rt g n st = Inr (False, st1)" "hasCycleFor rt g rest st1 = Inr (c, st')"
proof -
  from assms obtain b st1 where r: "hasCycle rt g n st = Inr (b, st1)"
    by (cases "hasCycle rt g n st") auto
  show thesis
  proof (cases b)
    case True
    with assms r that(1) show ?thesis by simp
  next
    case False
    with assms r that(2) show ?thesis by simp
  qed
qed

lemma stack_restored:
  "hasCycle rt g v st = Inr (False, st') \<Longrightarrow> snd st' = snd st"
  "hasCycleFor rt g ns st = Inr (False, st') \<Longrightarrow> snd st' = snd st"
proof (induction rt g v st and rt g ns st arbitrary: st' and st'
    rule: hasCycle_hasCycleFor.induct)
  case (1 rt g nodeId visited recursionStack)
  show ?case
  proof (cases "nodeId \<in> recursionStack \<or> nodeId \<in> visited")
    case True
    then show ?thesis using "1.prems" by (auto simp: hasCycle.simps split: if_splits)
  next
    case False
    with "1.prems" obtain ns V S where ns: "neighbors rt g nodeId = Some ns"
      and r: "hasCycleFor rt g ns (insert nodeId visited, insert nodeId recursionStack)
                = Inr (False, (V, S))"
      and st': "st' = (V, S - {nodeId})"
      by (auto elim!: hasCycle_unvisited_cases)
    from "1.IH" [OF _ _ ns r] False have "S = insert nodeId recursionStack" by simp
    then show ?thesis using False st' by auto
  qed
next
  case (2 rt g st)
  then show ?case by simp
next
  case (3 rt g neighbor rest st)
  from "3.prems"(1) obtain st1 where r: "hasCycle rt g neighbor st = Inr (False, st1)"
    and rest: "hasCycleFor rt g rest st1 = Inr (False, st')"
    by (rule hasCycleFor_Cons_cases) simp_all
  from "3.IH"(1) [OF r] have "snd st1 = snd st" .
  moreover from "3.IH"(2) [OF r refl refl rest] have "snd st' = snd st1" .
  ultimately show ?case by simp
qed

lemma dfs_no_cycle:
  "hasCycle rt g v st = Inr (False, st') \<Longrightarrow> dfs_inv g st \<Longrightarrow>
     fst st \<subseteq> fst st' \<and> v \<in> fst st' - snd st' \<and> dfs_inv g st'"
  "hasCycleFor rt g ns st = Inr (False, st') \<Longrightarrow> dfs_inv g st \<Longrightarrow>
     fst st \<subseteq> fst st' \<and> set ns \<subseteq> fst st' - snd st' \<and> dfs_inv g st'"
proof (induction rt g v st and rt g ns st arbitrary: st' and st'
    rule: hasCycle_hasCycleFor.induct)
  case (1 rt g nodeId visited recursionStack)
  show ?case
  proof (cases "nodeId \<in> recursionStack \<or> nodeId \<in> visited")
    case True
    then show ?thesis using "1.prems" by (auto simp: hasCycle.simps split: if_splits)
  next
    case False
    with "1.prems"(1) obtain ns V S where ns: "neighbors rt g nodeId = Some ns"
      and r: "hasCycleFor rt g ns (insert nodeId visited, insert nodeId recursionStack)
                = Inr (False, (V, S))"
      and st': "st' = (V, S - {nodeId})"
      by (auto elim!: hasCycle_unvisited_cases)
    have S: "S = insert nodeId recursionStack"
      using stack_restored(2) [OF r] by simp
    have eq: "insert nodeId visited - insert nodeId recursionStack = visited - recursionStack"
      using False by auto
    have "dfs_inv g (insert nodeId visited, insert nodeId recursionStack)"
      using "1.prems"(2) unfolding dfs_inv_def by (auto simp: eq)
    with "1.IH" [OF _ _ ns r] False
    have sub: "insert nodeId visited \<subseteq> V" and nb: "set ns \<subseteq> V - S"
      and inv: "dfs_inv g (V, S)" by simp_all
    have "finished g (insert nodeId (V - S))"
      using inv nb S neighbors_succs [OF ns] unfolding dfs_inv_def
      by (intro finished_insert) simp_all
    moreover have "V - (S - {nodeId}) = insert nodeId (V - S)" using sub by auto
    moreover have "S - {nodeId} \<subseteq> V" using inv unfolding dfs_inv_def by auto
    ultimately have "dfs_inv g (V, S - {nodeId})"
      unfolding dfs_inv_def by simp
    then show ?thesis using st' sub S False by auto
  qed
next
  case (2 rt g st)
  then show ?case by simp
next
  case (3 rt g neighbor rest st)
  from "3.prems"(1) obtain st1 where r: "hasCycle rt g neighbor st = Inr (False, st1)"
    and rest: "hasCycleFor rt g rest st1 = Inr (False, st')"
    by (rule hasCycleFor_Cons_cases) simp_all
  from "3.IH"(1) [OF r "3.prems"(2)]
  have 1: "fst st \<subseteq> fst st1" "neighbor \<in> fst st1 - snd st1" "dfs_inv g st1" by simp_all
  from "3.IH"(2) [OF r refl refl rest 1(3)]
  have 2: "fst st1 \<subseteq> fst st'" "set rest \<subseteq> fst st' - snd st'" "dfs_inv g st'" by simp_all
  have "snd st' = snd st1" using stack_restored(2) [OF rest] .
  then show ?case using 1 2 by auto
qed

lemma dfs_cycle:
  "hasCycle rt g v st = Inr (True, st') \<Longrightarrow> \<forall>s\<in>snd st. (s, v) \<in> (succs g)\<^sup>+ \<Longrightarrow>
     reachesCycle (succs g) v"
  "hasCycleFor rt g ns st = Inr (True, st') \<Longrightarrow>
     \<forall>s\<in>snd st. \<forall>n\<in>set ns. (s, n) \<in> (succs g)\<^sup>+ \<Longrightarrow>
     \<exists>n\<in>set ns. reachesCycle (succs g) n"
proof (induction rt g v st and rt g ns st arbitrary: st' and st'
    rule: hasCycle_hasCycleFor.induct)
  case (1 rt g nodeId visited recursionStack)
  show ?case
  proof (cases "nodeId \<in> recursionStack")
    case True
    then have "(nodeId, nodeId) \<in> (succs g)\<^sup>+" using "1.prems"(2) by simp
    then show ?thesis unfolding reachesCycle_def by blast
  next
    case False
    then have nv: "nodeId \<notin> visited"
      using "1.prems"(1) by (auto simp: hasCycle.simps split: if_splits)
    with False "1.prems"(1) obtain ns V S where ns: "neighbors rt g nodeId = Some ns"
      and r: "hasCycleFor rt g ns (insert nodeId visited, insert nodeId recursionStack)
                = Inr (True, (V, S))"
      by (auto elim!: hasCycle_unvisited_cases)
    have "\<forall>s\<in>insert nodeId recursionStack. \<forall>n\<in>set ns. (s, n) \<in> (succs g)\<^sup>+"
    proof (intro ballI)
      fix s n assume s: "s \<in> insert nodeId recursionStack" and n: "n \<in> set ns"
      from n have e: "(nodeId, n) \<in> succs g" using neighbors_succs [OF ns] by auto
      show "(s, n) \<in> (succs g)\<^sup>+"
      proof (cases "s = nodeId")
        case True
        then show ?thesis using e by auto
      next
        case False
        then have "(s, nodeId) \<in> (succs g)\<^sup>+" using s "1.prems"(2) by simp
        then show ?thesis using e by (rule trancl_into_trancl)
      qed
    qed
    with "1.IH" [OF False nv ns r]
    obtain n where n: "n \<in> set ns" "reachesCycle (succs g) n" by auto
    then have "(nodeId, n) \<in> succs g" using neighbors_succs [OF ns] by auto
    with n(2) show ?thesis unfolding reachesCycle_def
      by (meson converse_rtrancl_into_rtrancl)
  qed
next
  case (2 rt g st)
  then show ?case by simp
next
  case (3 rt g neighbor rest st)
  from "3.prems"(1) show ?case
  proof (cases rule: hasCycleFor_Cons_cases)
    case (1 st1)
    with "3.IH"(1) [of st1] "3.prems"(2) show ?thesis by simp
  next
    case (2 st1)
    have "snd st1 = snd st" using stack_restored(1) [OF 2(1)] .
    with "3.IH"(2) [OF 2(1) refl refl 2(2)] "3.prems"(2) show ?thesis by simp
  qed
qed

lemma inv_no_cycle:
  assumes "dfs_inv g (V, {})" "v \<in> V"
  shows "\<not> reachesCycle (succs g) v"
proof
  assume "reachesCycle (succs g) v"
  then obtain c where c: "(v, c) \<in> (succs g)\<^sup>*" "(c, c) \<in> (succs g)\<^sup>+"
    unfolding reachesCycle_def by blast
  have closed: "\<forall>u\<in>V. \<forall>w. (u, w) \<in> succs g \<longrightarrow> w \<in> V"
    using assms(1) unfolding dfs_inv_def finished_def by simp
  from closed c(1) assms(2) have "c \<in> V" by (rule closed_reach)
  then show False using assms(1) c(2) unfolding dfs_inv_def finished_def by simp
qed

lemma detectCyclesFor_correct:
  assumes "dfs_inv g (V, {})" "detectCyclesFor rt g ns (V, {}) = Inr cycleIssues"
  shows "cycleIssues
           = (if \<exists>n\<in>set ns. reachesCycle (succs g) (node_id n) then [cycleMsg] else [])"
  using assms
proof (induction ns arbitrary: V)
  case Nil
  then show ?case by simp
next
  case (Cons n ns)
  show ?case
  proof (cases "node_id n \<in> V")
    case True
    then have "\<not> reachesCycle (succs g) (node_id n)" using Cons.prems(1) inv_no_cycle by blast
    moreover have "detectCyclesFor rt g ns (V, {}) = Inr cycleIssues"
      using Cons.prems(2) True by simp
    ultimately show ?thesis using Cons.IH [OF Cons.prems(1)] by simp
  next
    case False
    with Cons.prems(2) obtain b st1 where r: "hasCycle rt g (node_id n) (V, {}) = Inr (b, st1)"
      by (cases "hasCycle rt g (node_id n) (V, {})") auto
    show ?thesis
    proof (cases b)
      case True
      then have "reachesCycle (succs g) (node_id n)"
        using dfs_cycle(1) [of rt g "node_id n" "(V, {})" st1] r by simp
      moreover have "cycleIssues = [cycleMsg]" using Cons.prems(2) False r True by simp
      ultimately show ?thesis by simp
    next
      case b: False
      from dfs_no_cycle(1) [of rt g "node_id n" "(V, {})" st1] r b Cons.prems(1)
      have 1: "V \<subseteq> fst st1" "node_id n \<in> fst st1 - snd st1" "dfs_inv g st1" by simp_all
      have "snd st1 = {}" using stack_restored(1) [of rt g "node_id n" "(V, {})" st1] r b by simp
      then have st1: "st1 = (fst st1, {})" by (cases st1) simp
      have "\<not> reachesCycle (succs g) (node_id n)"
        using inv_no_cycle [of g "fst st1" "node_id n"] 1 st1 by auto
      moreover have "detectCyclesFor rt g ns (fst st1, {}) = Inr cycleIssues"
        using Cons.prems(2) False r b st1 by simp
      moreover from this have "cycleIssues
           = (if \<exists>n\<in>set ns. reachesCycle (succs g) (node_id n) then [cycleMsg] else [])"
        using Cons.IH [of "fst st1"] 1(3) st1 by simp
      ultimately show ?thesis by simp
    qed
  qed
qed

lemma dfs_inv_initial: "dfs_inv g ({}, {})"
  by (simp add: dfs_inv_def finished_def)

lemma addArc_succs:
  assumes "addArc rt g e = Inr g'"
  shows "succs g' = succs g \<union> (if truthy (sourceId e) \<and> truthy (targetId e)
                                  then {(the (sourceId e), the (targetId e))} else {})"
proof (cases "truthy (sourceId e) \<and> truthy (targetId e)")
  case False
  with assms show ?thesis by (auto simp: addArc_def)
next
  case True
  show ?thesis
  proof (cases "map_of g (the (sourceId e))")
    case None
    with assms True have "\<not> inheritedProperty rt (the (sourceId e))"
      by (auto simp: addArc_def getProperty_def split: if_splits)
    with assms True None
    have "map_of g' = (map_of g)(the (sourceId e) \<mapsto> [the (targetId e)])"
      by (auto simp: addArc_def getProperty_def update_conv')
    with None True show ?thesis by (auto simp: succs_def split: if_splits)
  next
    case (Some ts)
    with assms True
    have "map_of g' = (map_of g)(the (sourceId e) \<mapsto> ts @ [the (targetId e)])"
      by (auto simp: addArc_def getProperty_def update_conv')
    with Some True show ?thesis by (auto simp: succs_def split: if_splits)
  qed
qed

lemma buildGraphFor_succs:
  "buildGraphFor rt g es = Inr g' \<Longrightarrow> succs g' = succs g \<union> arcs es"
proof (induction es arbitrary: g)
  case Nil
  then show ?case by (simp add: arcs_def)
next
  case (Cons e es)
  then obtain g1 where g1: "addArc rt g e = Inr g1" "buildGraphFor rt g1 es = Inr g'"
    by (cases "addArc rt g e") auto
  from Cons.IH [OF g1(2)] addArc_succs [OF g1(1)] show ?case
    by (auto simp: arcs_def)
qed

lemma buildGraph_succs: "buildGraph rt es = Inr g \<Longrightarrow> succs g = arcs es"
  unfolding buildGraph_def by (drule buildGraphFor_succs) (simp add: succs_def)

lemma detectCycles_correct:
  assumes "detectCycles rt ns es = Inr cycleIssues"
  shows "cycleIssues
     = (if \<exists>n\<in>set ns. reachesCycle (arcs es) (node_id n) then [cycleMsg] else [])"
proof -
  from assms obtain g where g: "buildGraph rt es = Inr g"
    and r: "detectCyclesFor rt g ns ({}, {}) = Inr cycleIssues"
    unfolding detectCycles_def by (cases "buildGraph rt es") auto
  from detectCyclesFor_correct [OF dfs_inv_initial r] buildGraph_succs [OF g]
  show ?thesis by simp
qed

subsection \<open>The outgoing counts\<close>

lemma countOf_outgoingConnections_step:
  assumes "countOf rt oc k = (if inheritedProperty rt k then NotANumber else Number c)"
  shows "countOf rt (foldl (\<lambda>oc edge.
        if truthy (sourceId edge)
        then AList.update (the (sourceId edge)) (plusOne (countOf rt oc (the (sourceId edge)))) oc
        else oc) oc es) k
   = (if inheritedProperty rt k then NotANumber
      else Number (c + length (filter (\<lambda>e. truthy (sourceId e) \<and> the (sourceId e) = k) es)))"
  using assms
proof (induction es arbitrary: oc c)
  case Nil
  then show ?case by simp
next
  case (Cons e es)
  let ?oc' = "if truthy (sourceId e)
        then AList.update (the (sourceId e)) (plusOne (countOf rt oc (the (sourceId e)))) oc
        else oc"
  let ?c' = "c + (if truthy (sourceId e) \<and> the (sourceId e) = k then 1 else 0)"
  have "countOf rt ?oc' k = (if inheritedProperty rt k then NotANumber else Number ?c')"
    using Cons.prems
    by (auto simp: countOf_def getProperty_def update_conv' plusOne_def
             split: option.splits if_splits)
  from Cons.IH [OF this] show ?case by simp
qed

lemma countOf_outgoingConnections:
  "countOf rt (outgoingConnections rt es) k
     = (if inheritedProperty rt k then NotANumber
        else Number (length (filter (\<lambda>e. truthy (sourceId e) \<and> the (sourceId e) = k) es)))"
  unfolding outgoingConnections_def
  by (subst countOf_outgoingConnections_step [where c = 0])
     (simp_all add: countOf_def getProperty_def)

lemma branch_map_filter:
  "List.map_filter (\<lambda>n. case countOf rt (outgoingConnections rt es) (node_id n) of
            Number c \<Rightarrow> if c < 2 then Some (branchMsg n c) else None
          | NotANumber \<Rightarrow> None) ns
   = map (\<lambda>n. branchMsg n
             (length (filter (\<lambda>e. truthy (sourceId e) \<and> the (sourceId e) = node_id n) es)))
       (filter (\<lambda>n. \<not> inheritedProperty rt (node_id n)
                    \<and> length (filter (\<lambda>e. truthy (sourceId e) \<and> the (sourceId e) = node_id n) es)
                      < 2) ns)"
  by (induction ns) (simp_all add: List.map_filter_simps countOf_outgoingConnections)

subsection \<open>When the analyzer returns\<close>

text \<open>When no identifier is the name of an inherited property, the search does not throw.\<close>

lemma hasCycle_returns:
  "\<forall>(u, w)\<in>succs g. \<not> inheritedProperty rt w \<Longrightarrow> \<not> inheritedProperty rt v \<Longrightarrow>
     \<exists>r. hasCycle rt g v st = Inr r"
  "\<forall>(u, w)\<in>succs g. \<not> inheritedProperty rt w \<Longrightarrow> \<forall>n\<in>set ns. \<not> inheritedProperty rt n \<Longrightarrow>
     \<exists>r. hasCycleFor rt g ns st = Inr r"
proof (induction rt g v st and rt g ns st rule: hasCycle_hasCycleFor.induct)
  case (1 rt g nodeId visited recursionStack)
  show ?case
  proof (cases "nodeId \<in> recursionStack \<or> nodeId \<in> visited")
    case True
    then show ?thesis by (auto simp: hasCycle.simps)
  next
    case False
    have "neighbors rt g nodeId \<noteq> None"
      using "1.prems"(2) by (simp add: neighbors_def getProperty_def split: option.splits)
    then obtain ns where ns: "neighbors rt g nodeId = Some ns" by blast
    have "\<forall>n\<in>set ns. \<not> inheritedProperty rt n"
      using neighbors_succs [OF ns] "1.prems"(1) by auto
    with "1.IH" [OF _ _ ns "1.prems"(1)] False
    obtain b V S where "hasCycleFor rt g ns
        (insert nodeId visited, insert nodeId recursionStack) = Inr (b, (V, S))"
      by (metis prod_cases3)
    with False ns show ?thesis by (cases b) (auto simp: hasCycle.simps)
  qed
next
  case (2 rt g st)
  show ?case by auto
next
  case (3 rt g neighbor rest st)
  from "3.IH"(1) [OF "3.prems"(1)] "3.prems"(2)
  obtain b st1 where r: "hasCycle rt g neighbor st = Inr (b, st1)" by force
  show ?case
  proof (cases b)
    case True
    with r show ?thesis by auto
  next
    case False
    with "3.IH"(2) [OF r refl _ "3.prems"(1)] "3.prems"(2) r show ?thesis by auto
  qed
qed

lemma detectCyclesFor_returns:
  assumes "\<forall>(u, w)\<in>succs g. \<not> inheritedProperty rt w"
    "\<forall>n\<in>set ns. \<not> inheritedProperty rt (node_id n)"
  shows "\<exists>r. detectCyclesFor rt g ns st = Inr r"
  using assms(2)
proof (induction ns arbitrary: st)
  case Nil
  show ?case by auto
next
  case (Cons n ns)
  obtain V S where st: "st = (V, S)" by (cases st)
  from hasCycle_returns(1) [OF assms(1), of "node_id n" "(V, S)"] Cons.prems
  obtain b st1 where r: "hasCycle rt g (node_id n) (V, S) = Inr (b, st1)" by force
  from Cons.IH [of st1] Cons.IH [of "(V, S)"] Cons.prems show ?case
    unfolding st by (cases b) (auto simp: r)
qed

lemma buildGraphFor_returns:
  assumes "\<forall>e\<in>set es. truthy (sourceId e) \<longrightarrow> \<not> inheritedProperty rt (the (sourceId e))"
  shows "\<exists>g'. buildGraphFor rt g es = Inr g'"
  using assms
proof (induction es arbitrary: g)
  case Nil
  show ?case by simp
next
  case (Cons e es)
  have "\<exists>g1. addArc rt g e = Inr g1"
    using Cons.prems
    by (auto simp: addArc_def getProperty_def Let_def update_conv' split: option.splits)
  then obtain g1 where "addArc rt g e = Inr g1" ..
  with Cons.IH [of g1] Cons.prems show ?case by simp
qed

lemma detectCycles_returns:
  assumes "\<forall>e\<in>set es. truthy (sourceId e) \<longrightarrow> \<not> inheritedProperty rt (the (sourceId e))"
    "\<forall>e\<in>set es. truthy (targetId e) \<longrightarrow> \<not> inheritedProperty rt (the (targetId e))"
    "\<forall>n\<in>set ns. \<not> inheritedProperty rt (node_id n)"
  shows "\<exists>r. detectCycles rt ns es = Inr r"
proof -
  from buildGraphFor_returns [OF assms(1)] obtain g where g: "buildGraph rt es = Inr g"
    unfolding buildGraph_def by blast
  have "\<forall>(u, w)\<in>succs g. \<not> inheritedProperty rt w"
    using assms(2) unfolding buildGraph_succs [OF g] arcs_def by auto
  from detectCyclesFor_returns [OF this assms(3)] g show ?thesis
    by (simp add: detectCycles_def)
qed

subsection \<open>The messages of different checks differ\<close>

lemma numberToString_snoc:
  "\<exists>x. numberToString k = x @ [of_nat (48 + k mod 10)]"
  by (subst numberToString.simps) auto

lemma digit_code_unit:
  "(of_nat (48 + k mod 10) :: code_unit) \<notin> {100, 101, 116}"
proof -
  have "unat (of_nat (48 + k mod 10) :: code_unit) = 48 + k mod 10"
    by (simp add: unat_of_nat del: of_nat_add)
  moreover have "48 + k mod 10 < 100" by simp
  ultimately have "unat (of_nat (48 + k mod 10) :: code_unit) < 100" by simp
  then show ?thesis by (auto simp del: of_nat_add)
qed

text \<open>The last six code units of each kind of message, read backwards.\<close>

lemma msg_endings:
  "take 6 (rev noStartMsg) = rev (ascii ''found.'')"
  "take 6 (rev (manyStartMsg k)) = rev (ascii ''found.'')"
  "take 6 (rev noEndMsg) = rev (ascii ''found.'')"
  "take 6 (rev (disconnectedMsg n)) = rev (ascii ''ected.'')"
  "take 6 (rev cycleMsg) = rev (ascii ''chart.'')"
  "take 6 (rev (deadEndMsg rt t n)) = rev (ascii ''d end.'')"
  by (simp_all add: noStartMsg_def manyStartMsg_def noEndMsg_def disconnectedMsg_def
        cycleMsg_def deadEndMsg_def)

lemma branchMsg_ending:
  "\<exists>d. d \<notin> {100, 101, 116} \<and> take 2 (rev (branchMsg n k)) = [46, d]"
proof -
  obtain x where "numberToString k = x @ [of_nat (48 + k mod 10)]"
    using numberToString_snoc by blast
  then have "take 2 (rev (branchMsg n k)) = [46, of_nat (48 + k mod 10)]"
    by (simp add: branchMsg_def)
  then show ?thesis using digit_code_unit by blast
qed

lemma manyStartMsg_ending:
  "\<exists>d. d \<notin> {100, 101, 116} \<and> take 13 (rev (manyStartMsg k)) = rev (ascii '' were found.'') @ [d]"
proof -
  obtain x where "numberToString k = x @ [of_nat (48 + k mod 10)]"
    using numberToString_snoc by blast
  then have "take 13 (rev (manyStartMsg k)) = rev (ascii '' were found.'') @ [of_nat (48 + k mod 10)]"
    by (simp add: manyStartMsg_def)
  then show ?thesis using digit_code_unit by blast
qed


lemma msg_endings2:
  "take 2 (rev noStartMsg) = [46, 100]"
  "take 2 (rev (manyStartMsg k)) = [46, 100]"
  "take 2 (rev noEndMsg) = [46, 100]"
  "take 2 (rev (disconnectedMsg n)) = [46, 100]"
  "take 2 (rev cycleMsg) = [46, 116]"
  "take 2 (rev (deadEndMsg rt t n)) = [46, 100]"
  by (simp_all add: noStartMsg_def manyStartMsg_def noEndMsg_def disconnectedMsg_def
        cycleMsg_def deadEndMsg_def)

lemma branchMsg_distinct_aux:
  assumes "take 2 (rev x) = [46, 100] \<or> take 2 (rev x) = [46, 116]"
  shows "branchMsg n k \<noteq> x"
proof
  assume "branchMsg n k = x"
  then have "take 2 (rev (branchMsg n k)) = take 2 (rev x)" by simp
  moreover obtain d where "d \<notin> {100, 101, 116}" "take 2 (rev (branchMsg n k)) = [46, d]"
    using branchMsg_ending by blast
  ultimately show False using assms by auto
qed

lemma branchMsg_distinct:
  "branchMsg n k \<noteq> noStartMsg" "branchMsg n k \<noteq> manyStartMsg j" "branchMsg n k \<noteq> noEndMsg"
  "branchMsg n k \<noteq> disconnectedMsg m" "branchMsg n k \<noteq> cycleMsg"
  "branchMsg n k \<noteq> deadEndMsg rt t m"
  by (rule branchMsg_distinct_aux, simp only: msg_endings2 simp_thms)+

lemma ending_neq: "take k (rev a) = e1 \<Longrightarrow> take k (rev b) = e2 \<Longrightarrow> e1 \<noteq> e2 \<Longrightarrow> a \<noteq> b"
  by auto

lemma noStartMsg_distinct:
  "noStartMsg \<noteq> disconnectedMsg n" "noStartMsg \<noteq> cycleMsg" "noStartMsg \<noteq> deadEndMsg rt t n"
  by (rule ending_neq [OF msg_endings(1) msg_endings(4)], simp)
     (rule ending_neq [OF msg_endings(1) msg_endings(5)], simp,
      rule ending_neq [OF msg_endings(1) msg_endings(6)], simp)

lemma noEndMsg_distinct:
  "noEndMsg \<noteq> disconnectedMsg n" "noEndMsg \<noteq> cycleMsg" "noEndMsg \<noteq> deadEndMsg rt t n"
  by (rule ending_neq [OF msg_endings(3) msg_endings(4)], simp)
     (rule ending_neq [OF msg_endings(3) msg_endings(5)], simp,
      rule ending_neq [OF msg_endings(3) msg_endings(6)], simp)

lemma manyStartMsg_distinct:
  "manyStartMsg k \<noteq> disconnectedMsg n" "manyStartMsg k \<noteq> cycleMsg"
  "manyStartMsg k \<noteq> deadEndMsg rt t n"
  by (rule ending_neq [OF msg_endings(2) msg_endings(4)], simp)
     (rule ending_neq [OF msg_endings(2) msg_endings(5)], simp,
      rule ending_neq [OF msg_endings(2) msg_endings(6)], simp)

lemma cycleMsg_distinct:
  "cycleMsg \<noteq> noStartMsg" "cycleMsg \<noteq> manyStartMsg k" "cycleMsg \<noteq> noEndMsg"
  "cycleMsg \<noteq> disconnectedMsg n" "cycleMsg \<noteq> deadEndMsg rt t n"
  by (rule ending_neq [OF msg_endings(5) msg_endings(1)], simp)
     (rule ending_neq [OF msg_endings(5) msg_endings(2)], simp,
      rule ending_neq [OF msg_endings(5) msg_endings(3)], simp,
      rule ending_neq [OF msg_endings(5) msg_endings(4)], simp,
      rule ending_neq [OF msg_endings(5) msg_endings(6)], simp)

lemma manyStartMsg_distinct_aux:
  assumes "take 13 (rev x) = rev (ascii '' were found.'') @ [101]"
  shows "x \<noteq> manyStartMsg k"
proof
  assume "x = manyStartMsg k"
  then have "take 13 (rev x) = take 13 (rev (manyStartMsg k))" by simp
  moreover obtain d where "d \<notin> {100, 101, 116}"
    "take 13 (rev (manyStartMsg k)) = rev (ascii '' were found.'') @ [d]"
    using manyStartMsg_ending by blast
  ultimately show False using assms by auto
qed

lemma noStartMsg_neq_many: "noStartMsg \<noteq> manyStartMsg k"
  by (rule manyStartMsg_distinct_aux) (simp add: noStartMsg_def)

lemma noEndMsg_neq_many: "noEndMsg \<noteq> manyStartMsg k"
  by (rule manyStartMsg_distinct_aux) (simp add: noEndMsg_def)

lemma noStartMsg_neq_noEnd: "noStartMsg \<noteq> noEndMsg"
  by (simp add: noStartMsg_def noEndMsg_def)



lemma detectCycles_cases:
  "detectCycles rt ns es = Inr cycleIssues \<Longrightarrow> cycleIssues = [] \<or> cycleIssues = [cycleMsg]"
  by (drule detectCycles_correct) simp

lemma analyze_issues:
  assumes "analyzeFlowchart rt (Some els) = Inr (Some a)"
  obtains cycleIssues where "detectCycles rt (nodes els) (edges els) = Inr cycleIssues"
    and "issues a =
       (if startNodes a = [] then [noStartMsg]
        else if length (startNodes a) > 1 then [manyStartMsg (length (startNodes a))] else [])
       @ (if endNodes a = [] then [noEndMsg] else [])
       @ (if length (nodes els) > 1
          then map disconnectedMsg
                 (filter (\<lambda>n. node_id n \<notin> connectedNodeIds (edges els)) (nodes els))
          else [])
       @ cycleIssues
       @ map (\<lambda>n. branchMsg n
             (length (filter (\<lambda>e. truthy (sourceId e) \<and> the (sourceId e) = node_id n) (edges els))))
           (filter (\<lambda>n. \<not> inheritedProperty rt (node_id n)
                    \<and> length (filter (\<lambda>e. truthy (sourceId e) \<and> the (sourceId e) = node_id n)
                                 (edges els)) < 2) (decisionNodes a))
       @ map (\<lambda>n. deadEndMsg rt (the (node_type n)) n)
           (filter (\<lambda>n. countOf rt (outgoingConnections rt (edges els)) (node_id n) = Number 0)
              (processNodes a @ ioNodes a @ decisionNodes a))"
  using analyze_result(9) [OF assms] unfolding branch_map_filter by blast

text \<open>
  The analyzer returns an analysis for every input with at least one node in which every
  node has a type, as every node that the extractor returns has, and no identifier is the
  name of an inherited property. For a node without type and without outgoing edge the
  dead-end check throws; the search throws when it visits a node whose identifier is the
  name of an inherited property, and such a decision node that the search does not visit
  gets no message.
\<close>

lemma analyzeFlowchart_returns:
  assumes "nodes els \<noteq> []" "\<forall>n\<in>set (nodes els). node_type n \<noteq> None"
    and "\<forall>n\<in>set (nodes els). \<not> inheritedProperty rt (node_id n)"
    and "\<forall>e\<in>set (edges els). truthy (sourceId e) \<longrightarrow> \<not> inheritedProperty rt (the (sourceId e))"
    and "\<forall>e\<in>set (edges els). truthy (targetId e) \<longrightarrow> \<not> inheritedProperty rt (the (targetId e))"
  shows "\<exists>a. analyzeFlowchart rt (Some els) = Inr (Some a)"
proof -
  define a0 where "a0 = \<lparr> totalElements = length (nodes els) + length (edges els),
     startNodes = [], endNodes = [], decisionNodes = [], processNodes = [], ioNodes = [],
     connections = edges els, issues = [] \<rparr>"
  define a1 where "a1 = foldl categorize a0 (nodes els)"
  define a2 where "a2 = (if length (startNodes a1) = 0 then pushIssue a1 noStartMsg
     else if length (startNodes a1) > 1 then pushIssue a1 (manyStartMsg (length (startNodes a1)))
     else a1)"
  define a3 where "a3 = (if length (endNodes a2) = 0 then pushIssue a2 noEndMsg else a2)"
  define a4 where "a4 = (if length (nodes els) > 1 then
     foldl (\<lambda>a n. if node_id n \<notin> connectedNodeIds (edges els)
                   then pushIssue a (disconnectedMsg n) else a) a3 (nodes els) else a3)"
  define oc where "oc = outgoingConnections rt (edges els)"
  from detectCycles_returns [OF assms(4,5,3)]
  obtain cyc where cyc: "detectCycles rt (nodes els) (edges els) = Inr cyc" by blast
  define a5 where "a5 = a4\<lparr>issues := issues a4 @ cyc\<rparr>"
  define a6 where "a6 = foldl (branchCheck rt oc) a5 (decisionNodes a5)"
  have unfold: "analyzeFlowchart rt (Some els) =
      (case deadEndCheck rt oc (processNodes a6 @ ioNodes a6 @ decisionNodes a6) a6 of
         Inl e \<Rightarrow> Inl e | Inr a7 \<Rightarrow> Inr (Some a7))"
    unfolding analyzeFlowchart_def Let_def cyc a6_def a5_def oc_def a4_def a3_def a2_def a1_def
      a0_def
    using assms(1) by (simp only: option.case length_0_conv if_False cyc sum.case)
  have "processNodes a6 = processNodes a1" "ioNodes a6 = ioNodes a1"
    "decisionNodes a6 = decisionNodes a1"
    by (simp_all add: a6_def branchCheck_fold pushIssue_fold a5_def a4_def a3_def a2_def
          pushIssue_def)
  then have "set (processNodes a6 @ ioNodes a6 @ decisionNodes a6) \<subseteq> set (nodes els)"
    by (auto simp: a1_def categorize_fold a0_def)
  then have "\<not> (\<exists>e. deadEndCheck rt oc (processNodes a6 @ ioNodes a6 @ decisionNodes a6) a6
                     = Inl e)"
    unfolding deadEndCheck_throws using assms(2) by blast
  then show ?thesis unfolding unfold by (auto split: sum.splits)
qed

lemmas analyze_eval = analyzeFlowchart_def categorize_def pushIssue_def detectCycles_def
  buildGraph_def addArc_def getProperty_def hasCycle.simps neighbors_def
  outgoingConnections_def connectedNodeIds_def countOf_def plusOne_def branchCheck_def
  truthy_def Let_def asciiRuntime_def objectPrototypeNames_def

lemma endOnly_result:
  "analyzeFlowchart asciiRuntime (Some endOnly) =
     Inr (Some \<lparr> totalElements = 1, startNodes = [], endNodes = nodes endOnly,
       decisionNodes = [], processNodes = [], ioNodes = [], connections = [],
       issues = [noStartMsg] \<rparr>)"
  by (simp add: analyze_eval endOnly_def)

lemma untypedFirst_result:
  "analyzeFlowchart asciiRuntime (Some untypedFirst) =
     Inr (Some \<lparr> totalElements = 3, startNodes = [], endNodes = [nodes untypedFirst ! 1],
       decisionNodes = [], processNodes = [nodes untypedFirst ! 0], ioNodes = [],
       connections = edges untypedFirst, issues = [noStartMsg] \<rparr>)"
  by (simp add: analyze_eval untypedFirst_def)

lemma analyzeFlowchart_untyped_dead_end:
  "analyzeFlowchart asciiRuntime (Some untypedOnly) = Inl TypeError"
  by (simp add: analyze_eval untypedOnly_def)

lemma analyzeFlowchart_inherited_name:
  "analyzeFlowchart asciiRuntime (Some constructorBeforeDecision) = Inl TypeError"
  by (simp add: analyze_eval constructorBeforeDecision_def)

lemma constructorDecision_result:
  "analyzeFlowchart asciiRuntime (Some constructorDecision) =
     Inr (Some \<lparr> totalElements = 3, startNodes = [], endNodes = [],
       decisionNodes = [nodes constructorDecision ! 1],
       processNodes = [nodes constructorDecision ! 0], ioNodes = [],
       connections = edges constructorDecision,
       issues = [noStartMsg, noEndMsg, disconnectedMsg (nodes constructorDecision ! 1),
                 cycleMsg] \<rparr>)"
  by (simp add: analyze_eval constructorDecision_def)

lemma triangle_result:
  "analyzeFlowchart asciiRuntime (Some triangle) =
     Inr (Some \<lparr> totalElements = 6, startNodes = [], endNodes = [], decisionNodes = [],
       processNodes = [nodes triangle ! 1], ioNodes = [nodes triangle ! 0, nodes triangle ! 2],
       connections = edges triangle, issues = [noStartMsg, noEndMsg, cycleMsg] \<rparr>)"
  by (simp add: analyze_eval triangle_def)

lemma forkJoin_result:
  "analyzeFlowchart asciiRuntime (Some forkJoin) =
     Inr (Some \<lparr> totalElements = 6, startNodes = [], endNodes = [], decisionNodes = [],
       processNodes = [nodes triangle ! 1], ioNodes = [nodes triangle ! 0, nodes triangle ! 2],
       connections = edges forkJoin,
       issues = [noStartMsg, noEndMsg, deadEndMsg asciiRuntime (ascii ''output'') (nodes triangle ! 2)] \<rparr>)"
  by (simp add: analyze_eval forkJoin_def triangle_def)

lemma danglingBranch_result:
  "analyzeFlowchart asciiRuntime (Some danglingBranch) =
     Inr (Some \<lparr> totalElements = 6, startNodes = [nodes danglingBranch ! 0],
       endNodes = [nodes danglingBranch ! 2], decisionNodes = [nodes danglingBranch ! 1],
       processNodes = [], ioNodes = [], connections = edges danglingBranch, issues = [] \<rparr>)"
  by (simp add: analyze_eval danglingBranch_def)

lemma singleBranch_result:
  "analyzeFlowchart asciiRuntime (Some singleBranch) =
     Inr (Some \<lparr> totalElements = 6, startNodes = [nodes singleBranch ! 0],
       endNodes = [nodes singleBranch ! 2], decisionNodes = [nodes singleBranch ! 1],
       processNodes = [], ioNodes = [], connections = edges singleBranch,
       issues = [branchMsg (nodes singleBranch ! 1) 1] \<rparr>)"
  by (simp add: analyze_eval singleBranch_def)

subsection \<open>Terminal check\<close>

text \<open>
  When the analyzer returns an analysis: the message that no start node was found
  occurs exactly once when no node is typed \<open>start\<close> (and not at all otherwise); with more
  than one start node the list has the message that names their number; the message that
  no end node was found is in the list when no node is typed \<open>end\<close>, and it is not when
  there is an end node, in particular in a flowchart with no start node and one end node.
\<close>

lemma terminal_check:
  assumes "analyzeFlowchart rt (Some els) = Inr (Some a)"
  shows "count_list (issues a) noStartMsg
           = (if length (filter (\<lambda>n. node_type n = Some (ascii ''start'')) (nodes els)) = 0
              then 1 else 0)
       \<and> (1 < length (filter (\<lambda>n. node_type n = Some (ascii ''start'')) (nodes els))
          \<longrightarrow> manyStartMsg (length (filter (\<lambda>n. node_type n = Some (ascii ''start'')) (nodes els)))
                \<in> set (issues a))
       \<and> (length (filter (\<lambda>n. node_type n = Some (ascii ''end'')) (nodes els)) = 0
          \<longrightarrow> noEndMsg \<in> set (issues a))
       \<and> (0 < length (filter (\<lambda>n. node_type n = Some (ascii ''end'')) (nodes els))
          \<longrightarrow> noEndMsg \<notin> set (issues a))"
proof -
  note r = analyze_result [OF assms]
  from assms obtain cycleIssues
    where c: "detectCycles rt (nodes els) (edges els) = Inr cycleIssues"
      and i: "issues a =
       (if startNodes a = [] then [noStartMsg]
        else if length (startNodes a) > 1 then [manyStartMsg (length (startNodes a))] else [])
       @ (if endNodes a = [] then [noEndMsg] else [])
       @ (if length (nodes els) > 1
          then map disconnectedMsg
                 (filter (\<lambda>n. node_id n \<notin> connectedNodeIds (edges els)) (nodes els))
          else [])
       @ cycleIssues
       @ map (\<lambda>n. branchMsg n
             (length (filter (\<lambda>e. truthy (sourceId e) \<and> the (sourceId e) = node_id n) (edges els))))
           (filter (\<lambda>n. \<not> inheritedProperty rt (node_id n)
                    \<and> length (filter (\<lambda>e. truthy (sourceId e) \<and> the (sourceId e) = node_id n)
                                 (edges els)) < 2) (decisionNodes a))
       @ map (\<lambda>n. deadEndMsg rt (the (node_type n)) n)
           (filter (\<lambda>n. countOf rt (outgoingConnections rt (edges els)) (node_id n) = Number 0)
              (processNodes a @ ioNodes a @ decisionNodes a))"
    by (rule analyze_issues)
  let ?starts = "filter (\<lambda>n. node_type n = Some (ascii ''start'')) (nodes els)"
  let ?ends = "filter (\<lambda>n. node_type n = Some (ascii ''end'')) (nodes els)"
  have cyc: "cycleIssues = [] \<or> cycleIssues = [cycleMsg]"
    using c by (rule detectCycles_cases)
  have s0: "noStartMsg \<notin> set (map disconnectedMsg xs)"
    "noStartMsg \<notin> set cycleIssues"
    "noStartMsg \<notin> set (map (\<lambda>n. branchMsg n (f n)) ys)"
    "noStartMsg \<notin> set (map (\<lambda>n. deadEndMsg rt (the (node_type n)) n) zs)" for xs f ys zs
  proof -
    show "noStartMsg \<notin> set (map disconnectedMsg xs)"
      using noStartMsg_distinct(1) by auto
    show "noStartMsg \<notin> set cycleIssues"
      using cyc noStartMsg_distinct(2) by auto
    show "noStartMsg \<notin> set (map (\<lambda>n. branchMsg n (f n)) ys)"
      using branchMsg_distinct(1) by (auto simp: image_iff) metis
    show "noStartMsg \<notin> set (map (\<lambda>n. deadEndMsg rt (the (node_type n)) n) zs)"
      using noStartMsg_distinct(3) by auto
  qed
  have e0: "noEndMsg \<notin> set (map disconnectedMsg xs)"
    "noEndMsg \<notin> set cycleIssues"
    "noEndMsg \<notin> set (map (\<lambda>n. branchMsg n (f n)) ys)"
    "noEndMsg \<notin> set (map (\<lambda>n. deadEndMsg rt (the (node_type n)) n) zs)" for xs f ys zs
  proof -
    show "noEndMsg \<notin> set (map disconnectedMsg xs)"
      using noEndMsg_distinct(1) by auto
    show "noEndMsg \<notin> set cycleIssues"
      using cyc noEndMsg_distinct(2) by auto
    show "noEndMsg \<notin> set (map (\<lambda>n. branchMsg n (f n)) ys)"
      using branchMsg_distinct(3) by (auto simp: image_iff) metis
    show "noEndMsg \<notin> set (map (\<lambda>n. deadEndMsg rt (the (node_type n)) n) zs)"
      using noEndMsg_distinct(3) by auto
  qed
  have 1: "count_list (issues a) noStartMsg = (if length ?starts = 0 then 1 else 0)"
    using s0 noStartMsg_neq_many noStartMsg_neq_noEnd
    by (subst i) (simp add: r(4,5) count_list_0_iff del: set_map)
  have 2: "1 < length ?starts \<longrightarrow> manyStartMsg (length ?starts) \<in> set (issues a)"
    by (subst i) (simp add: r(4,5))
  have 3: "length ?ends = 0 \<longrightarrow> noEndMsg \<in> set (issues a)"
    by (subst i) (simp add: r(4,5))
  have 4: "0 < length ?ends \<longrightarrow> noEndMsg \<notin> set (issues a)"
    using e0 noEndMsg_neq_many noStartMsg_neq_noEnd
    by (subst i) (simp add: r(4,5) del: set_map)
  from 1 2 3 4 show ?thesis by blast
qed

lemma terminal_check_example:
  "analyzeFlowchart asciiRuntime (Some endOnly) =
     Inr (Some \<lparr> totalElements = 1, startNodes = [], endNodes = nodes endOnly,
       decisionNodes = [], processNodes = [], ioNodes = [], connections = [],
       issues = [noStartMsg] \<rparr>)
   \<and> length (filter (\<lambda>n. node_type n = Some (ascii ''start'')) (nodes endOnly)) = 0
   \<and> 0 < length (filter (\<lambda>n. node_type n = Some (ascii ''end'')) (nodes endOnly))
   \<and> count_list [noStartMsg] noStartMsg = 1 \<and> noEndMsg \<notin> set [noStartMsg]"
  using terminal_check [OF endOnly_result] endOnly_result
  by (simp add: endOnly_def)

text \<open>
  C2. The claim does not hold of the code for every extraction result. The extractor
  returns the diagram \<open>constructorVertex\<close>, whose only shape has the identifier
  \<open>constructor\<close>, as one node typed \<open>process\<close>: no node is typed \<open>start\<close>, and the claim
  expects an issue list with the message that no start node was found. The analyzer has no
  issue list for it: it throws a \<open>TypeError\<close> in the search for cycles, where \<open>graph\<close> is an
  object literal, \<open>graph['constructor'] || []\<close> is the function that every object inherits,
  and \<open>for ... of\<close> cannot iterate over it. The terminal check itself is as the claim
  describes it (lemma \<open>terminal_check\<close>), whenever the analyzer goes on to return.
\<close>

theorem terminal_check_type_error:
  "extractFlowchartElements asciiRuntime (Some constructorVertex) = Some constructorOnly
   \<and> filter (\<lambda>n. node_type n = Some (ascii ''start'')) (nodes constructorOnly) = []
   \<and> analyzeFlowchart asciiRuntime (Some constructorOnly) = Inl TypeError"
proof -
  have 1: "extractFlowchartElements asciiRuntime (Some constructorVertex) = Some constructorOnly"
    by (simp add: extract_eval constructorVertex_def constructorOnly_def someKeyword_def
          asciiLower_def)
  have 2: "filter (\<lambda>n. node_type n = Some (ascii ''start'')) (nodes constructorOnly) = []"
    by (simp add: constructorOnly_def)
  have 3: "analyzeFlowchart asciiRuntime (Some constructorOnly) = Inl TypeError"
    by (simp add: analyze_eval constructorOnly_def)
  show ?thesis by (rule conjI [OF 1 conjI [OF 2 3]])
qed

subsection \<open>Buckets\<close>

lemma five_way_partition:
  "mset (filter (\<lambda>n. node_type n = Some (ascii ''start'')) ns
       @ filter (\<lambda>n. node_type n = Some (ascii ''end'')) ns
       @ filter (\<lambda>n. node_type n = Some (ascii ''decision'')) ns
       @ filter (\<lambda>n. node_type n = Some (ascii ''input'') \<or> node_type n = Some (ascii ''output'')) ns
       @ filter (\<lambda>n. node_type n \<notin> {Some (ascii ''start''), Some (ascii ''end''),
            Some (ascii ''decision''), Some (ascii ''input''), Some (ascii ''output'')}) ns)
     = mset ns"
  by (induction ns) auto

text \<open>
  C10. When the analyzer returns an analysis, \<open>totalElements\<close> is the number of nodes plus
  the number of edges of the input; the five buckets are the sublists of the input nodes
  typed \<open>start\<close>, \<open>end\<close>, \<open>decision\<close>, \<open>input\<close> or \<open>output\<close>, and anything else (the type
  \<open>process\<close>, an unknown type, no type); together they hold every input node exactly as
  often as the input does.
\<close>

theorem buckets_partition:
  assumes "analyzeFlowchart rt (Some els) = Inr (Some a)"
  shows "totalElements a = length (nodes els) + length (edges els)
     \<and> startNodes a = filter (\<lambda>n. node_type n = Some (ascii ''start'')) (nodes els)
     \<and> endNodes a = filter (\<lambda>n. node_type n = Some (ascii ''end'')) (nodes els)
     \<and> decisionNodes a = filter (\<lambda>n. node_type n = Some (ascii ''decision'')) (nodes els)
     \<and> ioNodes a = filter (\<lambda>n. node_type n = Some (ascii ''input'')
                               \<or> node_type n = Some (ascii ''output'')) (nodes els)
     \<and> processNodes a = filter (\<lambda>n. node_type n \<notin> {Some (ascii ''start''),
           Some (ascii ''end''), Some (ascii ''decision''), Some (ascii ''input''),
           Some (ascii ''output'')}) (nodes els)
     \<and> mset (startNodes a @ endNodes a @ decisionNodes a @ ioNodes a @ processNodes a)
         = mset (nodes els)"
proof -
  note r = analyze_result [OF assms]
  have "mset (startNodes a @ endNodes a @ decisionNodes a @ ioNodes a @ processNodes a)
         = mset (nodes els)"
    unfolding r(4-8) by (rule five_way_partition)
  with r(2,4-8) show ?thesis by blast
qed

theorem buckets_partition_witness:
  "analyzeFlowchart asciiRuntime (Some untypedFirst) =
     Inr (Some \<lparr> totalElements = 3, startNodes = [], endNodes = [nodes untypedFirst ! 1],
       decisionNodes = [], processNodes = [nodes untypedFirst ! 0], ioNodes = [],
       connections = edges untypedFirst, issues = [noStartMsg] \<rparr>)
   \<and> node_type (nodes untypedFirst ! 0) = None
   \<and> 3 = length (nodes untypedFirst) + length (edges untypedFirst)
   \<and> [nodes untypedFirst ! 0] = filter (\<lambda>n. node_type n \<notin> {Some (ascii ''start''),
           Some (ascii ''end''), Some (ascii ''decision''), Some (ascii ''input''),
           Some (ascii ''output'')}) (nodes untypedFirst)
   \<and> mset ([] @ [nodes untypedFirst ! 1] @ [] @ [] @ [nodes untypedFirst ! 0])
       = mset (nodes untypedFirst)"
  using buckets_partition [OF untypedFirst_result] untypedFirst_result
  by (simp add: untypedFirst_def)

subsection \<open>Cycle detection\<close>

text \<open>
  When the analyzer returns an analysis, the message about a potential infinite loop
  occurs exactly once in the issues if some node of the input reaches a cycle of the
  graph of the edges that have both a source and a target, and it does not occur
  otherwise; in particular it does not occur when that graph has no cycle.
\<close>

lemma cycle_detection:
  assumes "analyzeFlowchart rt (Some els) = Inr (Some a)"
  shows "count_list (issues a) cycleMsg
           = (if \<exists>n\<in>set (nodes els). \<exists>c. (node_id n, c) \<in> (arcs (edges els))\<^sup>*
                                         \<and> (c, c) \<in> (arcs (edges els))\<^sup>+
              then 1 else 0)
       \<and> ((\<forall>c. (c, c) \<notin> (arcs (edges els))\<^sup>+) \<longrightarrow> cycleMsg \<notin> set (issues a))"
proof -
  note r = analyze_result [OF assms]
  from assms obtain cycleIssues
    where c: "detectCycles rt (nodes els) (edges els) = Inr cycleIssues"
      and i: "issues a =
       (if startNodes a = [] then [noStartMsg]
        else if length (startNodes a) > 1 then [manyStartMsg (length (startNodes a))] else [])
       @ (if endNodes a = [] then [noEndMsg] else [])
       @ (if length (nodes els) > 1
          then map disconnectedMsg
                 (filter (\<lambda>n. node_id n \<notin> connectedNodeIds (edges els)) (nodes els))
          else [])
       @ cycleIssues
       @ map (\<lambda>n. branchMsg n
             (length (filter (\<lambda>e. truthy (sourceId e) \<and> the (sourceId e) = node_id n) (edges els))))
           (filter (\<lambda>n. \<not> inheritedProperty rt (node_id n)
                    \<and> length (filter (\<lambda>e. truthy (sourceId e) \<and> the (sourceId e) = node_id n)
                                 (edges els)) < 2) (decisionNodes a))
       @ map (\<lambda>n. deadEndMsg rt (the (node_type n)) n)
           (filter (\<lambda>n. countOf rt (outgoingConnections rt (edges els)) (node_id n) = Number 0)
              (processNodes a @ ioNodes a @ decisionNodes a))"
    by (rule analyze_issues)
  have c0: "cycleMsg \<notin> set (map disconnectedMsg xs)"
    "cycleMsg \<notin> set (map (\<lambda>n. branchMsg n (f n)) ys)"
    "cycleMsg \<notin> set (map (\<lambda>n. deadEndMsg rt (the (node_type n)) n) zs)" for xs f ys zs
  proof -
    show "cycleMsg \<notin> set (map disconnectedMsg xs)"
      using cycleMsg_distinct(4) by auto
    show "cycleMsg \<notin> set (map (\<lambda>n. branchMsg n (f n)) ys)"
      using branchMsg_distinct(5) by (auto simp: image_iff) metis
    show "cycleMsg \<notin> set (map (\<lambda>n. deadEndMsg rt (the (node_type n)) n) zs)"
      using cycleMsg_distinct(5) by auto
  qed
  have 1: "count_list (issues a) cycleMsg
      = (if \<exists>n\<in>set (nodes els). reachesCycle (arcs (edges els)) (node_id n) then 1 else 0)"
    using c0 cycleMsg_distinct(1,2,3)
    by (subst i) (simp add: detectCycles_correct [OF c] count_list_0_iff del: set_map)
  have 2: "cycleMsg \<notin> set (issues a)" if "\<forall>c. (c, c) \<notin> (arcs (edges els))\<^sup>+"
  proof -
    from that have "\<not> (\<exists>n\<in>set (nodes els). reachesCycle (arcs (edges els)) (node_id n))"
      unfolding reachesCycle_def by blast
    with 1 have "count_list (issues a) cycleMsg = 0" by simp
    then show ?thesis by (simp add: count_list_0_iff)
  qed
  from 1 2 show ?thesis unfolding reachesCycle_def by blast
qed

lemma cycle_detection_example:
  "(\<exists>n\<in>set (nodes triangle). \<exists>c. (node_id n, c) \<in> (arcs (edges triangle))\<^sup>*
       \<and> (c, c) \<in> (arcs (edges triangle))\<^sup>+)
   \<and> count_list [noStartMsg, noEndMsg, cycleMsg] cycleMsg = 1"
proof -
  have E: "arcs (edges triangle) = {(ascii ''A'', ascii ''B''), (ascii ''B'', ascii ''C''),
      (ascii ''C'', ascii ''A'')}"
    by (simp add: arcs_def triangle_def truthy_def)
  have "(ascii ''A'', ascii ''A'') \<in> (arcs (edges triangle))\<^sup>+"
    unfolding E by (meson insertI1 insertI2 trancl.simps)
  moreover have "nodes triangle ! 0 \<in> set (nodes triangle)" "node_id (nodes triangle ! 0) = ascii ''A''"
    by (simp_all add: triangle_def)
  ultimately have h: "\<exists>n\<in>set (nodes triangle). \<exists>c. (node_id n, c) \<in> (arcs (edges triangle))\<^sup>*
       \<and> (c, c) \<in> (arcs (edges triangle))\<^sup>+"
    by (metis rtrancl.rtrancl_refl)
  with cycle_detection [OF triangle_result] show ?thesis by simp
qed

text \<open>
  C3. The claim does not hold of the code for every collection of nodes and edges. The
  extractor returns the diagram \<open>constructorAndLoop\<close> as two nodes, \<open>constructor\<close> and \<open>a\<close>,
  and one edge from \<open>a\<close> to \<open>a\<close>: the graph of the edges has a cycle that the node \<open>a\<close>
  reaches, and the claim expects an issue list with one message about a potential infinite
  loop. The analyzer has no issue list for it: the search starts at the node
  \<open>constructor\<close>, finds the function that \<open>graph\<close> inherits under that name where it looks
  for the node's neighbours, and throws a \<open>TypeError\<close>. The search itself is as the claim
  describes it (lemma \<open>cycle_detection\<close>), whenever the analyzer goes on to return.
\<close>

theorem cycle_detection_type_error:
  "extractFlowchartElements asciiRuntime (Some constructorAndLoop) = Some constructorThenLoop
   \<and> node_id (nodes constructorThenLoop ! 1) = ascii ''a''
   \<and> (ascii ''a'', ascii ''a'') \<in> arcs (edges constructorThenLoop)
   \<and> analyzeFlowchart asciiRuntime (Some constructorThenLoop) = Inl TypeError"
proof -
  have 1: "extractFlowchartElements asciiRuntime (Some constructorAndLoop)
             = Some constructorThenLoop"
    by (simp add: extract_eval constructorAndLoop_def constructorThenLoop_def someKeyword_def
          asciiLower_def)
  have 2: "node_id (nodes constructorThenLoop ! 1) = ascii ''a''"
    by (simp add: constructorThenLoop_def)
  have 3: "(ascii ''a'', ascii ''a'') \<in> arcs (edges constructorThenLoop)"
    by (simp add: arcs_def constructorThenLoop_def truthy_def)
  have 4: "analyzeFlowchart asciiRuntime (Some constructorThenLoop) = Inl TypeError"
    by (simp add: analyze_eval constructorThenLoop_def)
  show ?thesis by (rule conjI [OF 1 conjI [OF 2 conjI [OF 3 4]]])
qed

subsection \<open>Decision branch check\<close>

text \<open>
  C4, as amended. When the analyzer returns an analysis, the issues of the decision branch
  check are, in the order of the input, one message for every node typed \<open>decision\<close> that
  has fewer than two outgoing edges and whose identifier is not the name of an inherited
  property, naming the node and that number; no other issue of the list is such a message
  for any node and number. The outgoing edges of a node are the edges whose source is
  present and is the node's identifier, whether or not they have a target: an edge without
  source is not counted, an edge without target is. The statement speaks of the inputs for
  which the analyzer returns: where it throws instead, as for \<open>constructorBeforeDecision\<close>
  (lemma \<open>analyzeFlowchart_inherited_name\<close>), there is no list of issues.
\<close>

theorem decision_branch_check:
  assumes "analyzeFlowchart rt (Some els) = Inr (Some a)"
  shows "\<exists>before after.
     issues a = before
       @ map (\<lambda>n. branchMsg n
                (length (filter (\<lambda>e. truthy (sourceId e) \<and> the (sourceId e) = node_id n)
                           (edges els))))
           (filter (\<lambda>n. \<not> inheritedProperty rt (node_id n)
                        \<and> length (filter (\<lambda>e. truthy (sourceId e) \<and> the (sourceId e) = node_id n)
                                     (edges els)) < 2)
              (filter (\<lambda>n. node_type n = Some (ascii ''decision'')) (nodes els)))
       @ after
     \<and> (\<forall>x\<in>set before \<union> set after. \<forall>m k. x \<noteq> branchMsg m k)"
proof -
  note r = analyze_result [OF assms]
  from assms obtain cycleIssues
    where c: "detectCycles rt (nodes els) (edges els) = Inr cycleIssues"
      and i: "issues a =
       (if startNodes a = [] then [noStartMsg]
        else if length (startNodes a) > 1 then [manyStartMsg (length (startNodes a))] else [])
       @ (if endNodes a = [] then [noEndMsg] else [])
       @ (if length (nodes els) > 1
          then map disconnectedMsg
                 (filter (\<lambda>n. node_id n \<notin> connectedNodeIds (edges els)) (nodes els))
          else [])
       @ cycleIssues
       @ map (\<lambda>n. branchMsg n
             (length (filter (\<lambda>e. truthy (sourceId e) \<and> the (sourceId e) = node_id n) (edges els))))
           (filter (\<lambda>n. \<not> inheritedProperty rt (node_id n)
                    \<and> length (filter (\<lambda>e. truthy (sourceId e) \<and> the (sourceId e) = node_id n)
                                 (edges els)) < 2) (decisionNodes a))
       @ map (\<lambda>n. deadEndMsg rt (the (node_type n)) n)
           (filter (\<lambda>n. countOf rt (outgoingConnections rt (edges els)) (node_id n) = Number 0)
              (processNodes a @ ioNodes a @ decisionNodes a))"
    by (rule analyze_issues)
  have cyc: "cycleIssues = [] \<or> cycleIssues = [cycleMsg]"
    using c by (rule detectCycles_cases)
  define before where "before =
       (if startNodes a = [] then [noStartMsg]
        else if length (startNodes a) > 1 then [manyStartMsg (length (startNodes a))] else [])
       @ (if endNodes a = [] then [noEndMsg] else [])
       @ (if length (nodes els) > 1
          then map disconnectedMsg
                 (filter (\<lambda>n. node_id n \<notin> connectedNodeIds (edges els)) (nodes els))
          else [])
       @ cycleIssues"
  define after where "after = map (\<lambda>n. deadEndMsg rt (the (node_type n)) n)
           (filter (\<lambda>n. countOf rt (outgoingConnections rt (edges els)) (node_id n) = Number 0)
              (processNodes a @ ioNodes a @ decisionNodes a))"
  have "issues a = before
       @ map (\<lambda>n. branchMsg n
                (length (filter (\<lambda>e. truthy (sourceId e) \<and> the (sourceId e) = node_id n)
                           (edges els))))
           (filter (\<lambda>n. \<not> inheritedProperty rt (node_id n)
                        \<and> length (filter (\<lambda>e. truthy (sourceId e) \<and> the (sourceId e) = node_id n)
                                     (edges els)) < 2)
              (filter (\<lambda>n. node_type n = Some (ascii ''decision'')) (nodes els)))
       @ after"
    by (subst i) (simp add: before_def after_def r(6))
  moreover have "\<forall>m k. x \<noteq> branchMsg m k" if "x \<in> set before" for x
  proof -
    from that cyc have "x = noStartMsg \<or> (\<exists>j. x = manyStartMsg j) \<or> x = noEndMsg
        \<or> (\<exists>n. x = disconnectedMsg n) \<or> x = cycleMsg"
      unfolding before_def by (auto split: if_splits)
    then show ?thesis using branchMsg_distinct(1-5) by metis
  qed
  moreover have "\<forall>m k. x \<noteq> branchMsg m k" if "x \<in> set after" for x
  proof -
    from that have "\<exists>t n. x = deadEndMsg rt t n" unfolding after_def by auto
    then show ?thesis using branchMsg_distinct(6) by metis
  qed
  ultimately show ?thesis by blast
qed

theorem decision_branch_check_witness:
  "\<exists>before after.
     [branchMsg (nodes singleBranch ! 1) 1] = before @ [branchMsg (nodes singleBranch ! 1) 1] @ after
     \<and> (\<forall>x\<in>set before \<union> set after. \<forall>m k. x \<noteq> branchMsg m k)"
  using decision_branch_check [OF singleBranch_result]
  by (simp add: singleBranch_def truthy_def asciiRuntime_def objectPrototypeNames_def)

text \<open>
  The claim as stated fails: the decision node \<open>d\<close> below has one edge with a target and one
  without; were the second not counted, the check would report one outgoing branch, but
  the analyzer counts two and reports nothing.
\<close>

theorem decision_branch_dangling_edge_counterexample:
  "analyzeFlowchart asciiRuntime (Some danglingBranch) =
     Inr (Some \<lparr> totalElements = 6, startNodes = [nodes danglingBranch ! 0],
       endNodes = [nodes danglingBranch ! 2], decisionNodes = [nodes danglingBranch ! 1],
       processNodes = [], ioNodes = [], connections = edges danglingBranch, issues = [] \<rparr>)
   \<and> node_type (nodes danglingBranch ! 1) = Some (ascii ''decision'')
   \<and> map sourceId (edges danglingBranch) = [Some (ascii ''s''), Some (ascii ''d''), Some (ascii ''d'')]
   \<and> map targetId (edges danglingBranch) = [Some (ascii ''d''), Some (ascii ''e''), None]"
  by (simp add: analyze_eval danglingBranch_def)

end
